theory Spec2Isabelle
  imports Complex_Main
begin

section \<open>Python values and library functions used by the subset builder\<close>

text \<open>
  The development embeds \<^verbatim>\<open>scripts/01_subset_views.py\<close>. Exceptions are values:
  every function that can raise returns \<open>error + 'a\<close>, with \<open>Inl\<close> for the exception.
\<close>

datatype error =
    FileNotFoundError
  | NotADirectoryError
  | IsADirectoryError
  | FileExistsError
  | SameFileError
  | UnicodeDecodeError
  | JSONDecodeError
  | ValueError
  | ZeroDivisionError
  | IndexError

subsection \<open>Strings and \<^verbatim>\<open>pathlib\<close> paths\<close>

text \<open>
  \<^verbatim>\<open>str.split(sep)\<close> for a one-character separator: the fields between the
  separators, empty fields included.
\<close>

fun split_sep :: "char \<Rightarrow> string \<Rightarrow> string list" where
  "split_sep c [] = [[]]"
| "split_sep c (x # xs) =
     (if x = c then [] # split_sep c xs
      else (case split_sep c xs of [] \<Rightarrow> [[x]] | w # ws \<Rightarrow> (x # w) # ws))"

text \<open>
  \<^verbatim>\<open>file_path.replace("./", "")\<close>: every non-overlapping occurrence of the two
  characters, scanned from the left, is removed.
\<close>

fun remove_dot_slash :: "string \<Rightarrow> string" where
  "remove_dot_slash (a # b # cs) =
     (if a = CHR ''.'' \<and> b = CHR ''/'' then remove_dot_slash cs
      else a # remove_dot_slash (b # cs))"
| "remove_dot_slash cs = cs"

text \<open>
  A POSIX \<^verbatim>\<open>Path\<close> is the list of its parts; an absolute path starts with the
  part \<open>''/''\<close>. Parsing a string drops empty parts and the parts \<open>''.''\<close>. Paths are
  compared part by part: symbolic links and the resolution of \<open>''..''\<close> by the
  operating system are outside the model, as is the root \<open>''//''\<close>.
\<close>

type_synonym path = "string list"

definition Path :: "string \<Rightarrow> path" where
  "Path s =
     (if s \<noteq> [] \<and> hd s = CHR ''/'' then [''/''] else [])
     @ filter (\<lambda>part. part \<noteq> [] \<and> part \<noteq> ''.'') (split_sep CHR ''/'' s)"

text \<open>\<^verbatim>\<open>a / b\<close>: an absolute right operand replaces the left one.\<close>

definition joinpath :: "path \<Rightarrow> path \<Rightarrow> path" where
  "joinpath a b = (if b \<noteq> [] \<and> hd b = ''/'' then b else a @ b)"

definition path_name :: "path \<Rightarrow> string" where
  "path_name p = (if p = [] \<or> p = [''/''] then [] else last p)"

text \<open>\<^verbatim>\<open>str.rfind(c)\<close>: the last position of \<open>c\<close>, or \<open>-1\<close>.\<close>

definition rfind :: "char \<Rightarrow> string \<Rightarrow> int" where
  "rfind c s =
     (if c \<in> set s then int (length s) - 1 - int (length (takeWhile (\<lambda>x. x \<noteq> c) (rev s)))
      else - 1)"

text \<open>
  \<^verbatim>\<open>PurePath.stem\<close> (Python 3.8 to 3.13): the name without its suffix; the last
  dot of the name starts the suffix unless it is the first or the last character.
\<close>

definition stem :: "path \<Rightarrow> string" where
  "stem p =
     (let name = path_name p; i = rfind CHR ''.'' name
      in if 0 < i \<and> i < int (length name) - 1 then take (nat i) name else name)"

text \<open>
  \<^verbatim>\<open>PurePath.with_suffix(suffix)\<close> raises \<^verbatim>\<open>ValueError\<close> for a suffix
  that holds a separator, does not start with a dot or is a lone dot, and for a path with
  an empty name.
\<close>

definition with_suffix :: "path \<Rightarrow> string \<Rightarrow> error + path" where
  "with_suffix p sfx =
     (if CHR ''/'' \<in> set sfx then Inl ValueError
      else if (sfx \<noteq> [] \<and> hd sfx \<noteq> CHR ''.'') \<or> sfx = ''.'' then Inl ValueError
      else if path_name p = [] then Inl ValueError
      else Inr (butlast p @ [stem p @ sfx]))"

subsection \<open>Lists, dictionaries, integers\<close>

text \<open>
  \<^verbatim>\<open>xs[i]\<close>: a negative index counts from the end, and an index outside the list
  raises \<^verbatim>\<open>IndexError\<close>.
\<close>

definition getitem :: "'a list \<Rightarrow> int \<Rightarrow> error + 'a" where
  "getitem xs i =
     (if 0 \<le> i \<and> i < int (length xs) then Inr (xs ! nat i)
      else if i < 0 \<and> - int (length xs) \<le> i then Inr (xs ! nat (int (length xs) + i))
      else Inl IndexError)"

text \<open>
  \<^verbatim>\<open>list(dict.fromkeys(xs))\<close>: the keys in the order of their first insertion; a key
  inserted again keeps its place.
\<close>

definition fromkeys :: "'a list \<Rightarrow> 'a list" where
  "fromkeys xs = foldl (\<lambda>keys x. if x \<in> set keys then keys else keys @ [x]) [] xs"

text \<open>The truth value of an optional list: \<^verbatim>\<open>None\<close> and \<^verbatim>\<open>[]\<close> are false.\<close>

definition items :: "'a list option \<Rightarrow> 'a list" where
  "items xs = (case xs of None \<Rightarrow> [] | Some ys \<Rightarrow> ys)"

subsection \<open>Floating-point numbers\<close>

text \<open>
  A Python \<^verbatim>\<open>float\<close> is a binary64 number, here the rational it denotes. Dividing
  two integers and multiplying two floats give the binary64 number nearest to the exact
  result, ties going to the even mantissa: \<open>binary64\<close> rounds a rational to 53
  significant bits. The exponent range is not modelled (overflow and subnormal numbers
  do not arise from list lengths and counts).
\<close>

text \<open>\<^verbatim>\<open>int.bit_length()\<close>: the number of bits of a positive integer.\<close>

function bit_length :: "int \<Rightarrow> nat" where
  "bit_length k = (if k \<le> 0 then 0 else Suc (bit_length (k div 2)))"
  by pat_completeness auto
termination
  by (relation "measure nat") auto

definition pow2 :: "int \<Rightarrow> rat" where
  "pow2 e = (if 0 \<le> e then 2 ^ nat e else 1 / 2 ^ nat (- e))"

text \<open>The exponent \<open>e\<close> of a positive rational: \<open>2 ^ e \<le> x < 2 ^ (e + 1)\<close>.\<close>

definition binade :: "rat \<Rightarrow> int" where
  "binade x =
     (if 1 \<le> x then int (bit_length \<lfloor>x\<rfloor>) - 1
      else - int (bit_length (\<lceil>1 / x\<rceil> - 1)))"

definition round_half_even :: "rat \<Rightarrow> int" where
  "round_half_even m =
     (let f = \<lfloor>m\<rfloor>; d = m - of_int f
      in if d < 1 / 2 then f else if 1 / 2 < d then f + 1 else if even f then f else f + 1)"

definition binary64 :: "rat \<Rightarrow> rat" where
  "binary64 x =
     (if x = 0 then 0
      else (let a = \<bar>x\<bar>; ulp = pow2 (binade a - 52)
            in sgn x * of_int (round_half_even (a / ulp)) * ulp))"

text \<open>\<^verbatim>\<open>int(x)\<close> truncates a float towards zero.\<close>

definition py_int :: "rat \<Rightarrow> int" where
  "py_int x = (if 0 \<le> x then \<lfloor>x\<rfloor> else \<lceil>x\<rceil>)"

subsection \<open>The random sampler\<close>

text \<open>
  \<^verbatim>\<open>random.Random(seed)\<close> is initialised from the seed when one is given and from
  the operating system's entropy otherwise; the entropy is an input of the model. The
  generator's algorithm is the library's and is a parameter \<open>draw\<close>: the sample it
  returns for a generator, a population and a count. \<^verbatim>\<open>Random.sample\<close> raises
  \<^verbatim>\<open>ValueError\<close> for a count that is negative or larger than the population.
\<close>

datatype rng = SeededInt int | SeededOS nat

type_synonym sampler = "rng \<Rightarrow> string list \<Rightarrow> nat \<Rightarrow> string list"

definition Random :: "int option \<Rightarrow> nat \<Rightarrow> rng" where
  "Random seed os_entropy = (case seed of None \<Rightarrow> SeededOS os_entropy | Some s \<Rightarrow> SeededInt s)"

definition sample :: "sampler \<Rightarrow> rng \<Rightarrow> string list \<Rightarrow> int \<Rightarrow> error + string list" where
  "sample draw rnd population k =
     (if k < 0 \<or> int (length population) < k then Inl ValueError
      else Inr (draw rnd population (nat k)))"

section \<open>The view selector\<close>

text \<open>
  A frame of a manifest: its \<^verbatim>\<open>file_path\<close> and its other fields (the camera
  transform and whatever else the manifest holds), which the builder never reads.
\<close>

record 'j frame =
  file_path :: string
  payload :: "(string \<times> 'j) list"

definition normalize_frame_name :: "string \<Rightarrow> string" where
  "normalize_frame_name fp = stem (Path (remove_dot_slash fp))"

text \<open>The loop over \<^verbatim>\<open>indices\<close> (lines 44 to 47).\<close>

fun select_indices :: "string list \<Rightarrow> int list \<Rightarrow> string list \<Rightarrow> string list" where
  "select_indices frame_names [] selected = selected"
| "select_indices frame_names (idx # rest) selected =
     (if 0 \<le> idx \<and> idx < int (length frame_names)
      then select_indices frame_names rest (selected @ [frame_names ! nat idx])
      else select_indices frame_names rest selected)"

text \<open>The loop over \<^verbatim>\<open>selected_indices\<close> of the uniform branch (lines 62 to 68).\<close>

fun uniform_loop :: "string list \<Rightarrow> int list \<Rightarrow> int set \<Rightarrow> string list \<Rightarrow> error + string list" where
  "uniform_loop frame_names [] seen selected = Inr selected"
| "uniform_loop frame_names (idx # rest) seen selected =
     (let idx' = (if idx \<in> seen then min (idx + 1) (int (length frame_names) - 1) else idx)
      in case getitem frame_names idx' of
           Inl e \<Rightarrow> Inl e
         | Inr name \<Rightarrow> uniform_loop frame_names rest (insert idx' seen) (selected @ [name]))"

text \<open>
  Whether that loop takes its collision branch (\<^verbatim>\<open>if idx in seen\<close>) at some
  iteration it reaches: the same walk over the indices, with the same \<open>seen\<close> set.
\<close>

fun collides :: "string list \<Rightarrow> int list \<Rightarrow> int set \<Rightarrow> bool" where
  "collides frame_names [] seen = False"
| "collides frame_names (idx # rest) seen =
     (if idx \<in> seen then True
      else (case getitem frame_names idx of
              Inl e \<Rightarrow> False
            | Inr name \<Rightarrow> collides frame_names rest (insert idx seen)))"

text \<open>
  \<^verbatim>\<open>int(i * step)\<close>: the integer \<open>i\<close> is converted to a float, multiplied by the
  float \<open>step\<close>, and the product is truncated.
\<close>

definition stride_index :: "rat \<Rightarrow> nat \<Rightarrow> int" where
  "stride_index step i = py_int (binary64 (binary64 (of_nat i) * step))"

definition selected_indices :: "nat \<Rightarrow> int \<Rightarrow> int list" where
  "selected_indices n view_count =
     (let step = binary64 (of_nat n / of_int view_count)
      in map (\<lambda>i. min (stride_index step i) (int n - 1)) [0..<nat view_count])"

definition uniform_views :: "string list \<Rightarrow> int \<Rightarrow> error + string list" where
  "uniform_views frame_names view_count =
     (if view_count = 0 then Inl ZeroDivisionError
      else uniform_loop frame_names (selected_indices (length frame_names) view_count) {} [])"

definition choose_views ::
  "sampler \<Rightarrow> nat \<Rightarrow> 'j frame list \<Rightarrow> int option \<Rightarrow> int list option \<Rightarrow> string list option
     \<Rightarrow> string \<Rightarrow> int option \<Rightarrow> error + string list" where
  "choose_views draw os_entropy frames view_count indices names strategy seed =
     (let frame_names = map (\<lambda>frame. normalize_frame_name (file_path frame)) frames
      in if items names \<noteq> [] then Inr (fromkeys (map (\<lambda>raw. stem (Path raw)) (items names)))
         else if items indices \<noteq> [] then Inr (fromkeys (select_indices frame_names (items indices) []))
         else (case view_count of
                 None \<Rightarrow> Inr frame_names
               | Some vc \<Rightarrow>
                   if int (length frame_names) \<le> vc then Inr frame_names
                   else if strategy = ''random''
                     then sample draw (Random seed os_entropy) frame_names
                            (min vc (int (length frame_names)))
                   else uniform_views frame_names vc))"

text \<open>
  Whether a call of \<open>choose_views\<close> reaches the uniform branch and takes the collision
  branch of its loop.
\<close>

definition collision_triggered ::
  "'j frame list \<Rightarrow> int option \<Rightarrow> int list option \<Rightarrow> string list option \<Rightarrow> string \<Rightarrow> bool" where
  "collision_triggered frames view_count indices names strategy =
     (let frame_names = map (\<lambda>frame. normalize_frame_name (file_path frame)) frames
      in items names = [] \<and> items indices = [] \<and>
         (case view_count of
            None \<Rightarrow> False
          | Some vc \<Rightarrow>
              vc < int (length frame_names) \<and> strategy \<noteq> ''random'' \<and> vc \<noteq> 0 \<and>
              collides frame_names (selected_indices (length frame_names) vc) {}))"

section \<open>The file system\<close>

text \<open>
  A manifest is a JSON document with a \<^verbatim>\<open>frames\<close> list and other top-level fields
  (camera intrinsics and the like) of an opaque type \<open>'j\<close>. A file holds a manifest, or
  text in UTF-8 that is not JSON, or bytes that are not text in UTF-8 (an image);
  \<^verbatim>\<open>_load_json\<close> opens a file as UTF-8 text and parses it, and fails on the last
  two in the decoder and in the parser.
\<close>

record 'j manifest =
  manifest_frames :: "'j frame list"
  top_level :: "(string \<times> 'j) list"

datatype 'j content = JsonDoc "'j manifest" | Text string | Binary "nat list"

datatype 'j node = Dir | File "'j content"

type_synonym 'j filesystem = "path \<Rightarrow> 'j node option"

text \<open>
  An operation on the file system returns the file system it leaves behind together with
  its result or its exception: what was written before a failure stays written.
\<close>

definition path_exists :: "'j filesystem \<Rightarrow> path \<Rightarrow> bool" where
  "path_exists fs p = (fs p \<noteq> None)"

text \<open>\<open>path_under d p\<close>: the path \<open>p\<close> is \<open>d\<close> or lies below it.\<close>

definition path_under :: "path \<Rightarrow> path \<Rightarrow> bool" where
  "path_under d p = (take (length d) p = d)"


text \<open>\<^verbatim>\<open>shutil.rmtree(p)\<close> removes a directory and everything below it.\<close>

definition rmtree :: "'j filesystem \<Rightarrow> path \<Rightarrow> 'j filesystem \<times> (error + unit)" where
  "rmtree fs p =
     (case fs p of
        None \<Rightarrow> (fs, Inl FileNotFoundError)
      | Some (File c) \<Rightarrow> (fs, Inl NotADirectoryError)
      | Some Dir \<Rightarrow> ((\<lambda>q. if path_under p q then None else fs q), Inr ()))"

text \<open>
  \<^verbatim>\<open>p.mkdir(parents=True, exist_ok=True)\<close>: every missing directory on the way to
  \<open>p\<close> is created; a file in the way is an error.
\<close>

fun make_dirs :: "'j filesystem \<Rightarrow> path list \<Rightarrow> 'j filesystem \<times> (error + unit)" where
  "make_dirs fs [] = (fs, Inr ())"
| "make_dirs fs (d # ds) =
     (case fs d of
        None \<Rightarrow> make_dirs (fs(d \<mapsto> Dir)) ds
      | Some Dir \<Rightarrow> make_dirs fs ds
      | Some (File c) \<Rightarrow> (fs, Inl (if ds = [] then FileExistsError else NotADirectoryError)))"

definition mkdir :: "'j filesystem \<Rightarrow> path \<Rightarrow> 'j filesystem \<times> (error + unit)" where
  "mkdir fs p = make_dirs fs (map (\<lambda>k. take k p) [1..<Suc (length p)])"

text \<open>Opening a path for writing and storing a content there.\<close>

definition write_file :: "'j filesystem \<Rightarrow> path \<Rightarrow> 'j content \<Rightarrow> 'j filesystem \<times> (error + unit)" where
  "write_file fs p c =
     (case fs p of
        Some Dir \<Rightarrow> (fs, Inl IsADirectoryError)
      | _ \<Rightarrow>
          (case fs (butlast p) of
             None \<Rightarrow> (fs, Inl FileNotFoundError)
           | Some (File c') \<Rightarrow> (fs, Inl NotADirectoryError)
           | Some Dir \<Rightarrow> (fs(p \<mapsto> File c), Inr ())))"

definition load_json :: "'j filesystem \<Rightarrow> path \<Rightarrow> error + 'j manifest" where
  "load_json fs p =
     (case fs p of
        None \<Rightarrow> Inl FileNotFoundError
      | Some Dir \<Rightarrow> Inl IsADirectoryError
      | Some (File (Binary bytes)) \<Rightarrow> Inl UnicodeDecodeError
      | Some (File (Text t)) \<Rightarrow> Inl JSONDecodeError
      | Some (File (JsonDoc data)) \<Rightarrow> Inr data)"

definition write_json :: "'j filesystem \<Rightarrow> path \<Rightarrow> 'j manifest \<Rightarrow> 'j filesystem \<times> (error + unit)" where
  "write_json fs p data = write_file fs p (JsonDoc data)"

text \<open>
  \<^verbatim>\<open>shutil.copy2(src, dest)\<close>: a destination that is a directory receives the file
  under the source's name.
\<close>

definition copy2 :: "'j filesystem \<Rightarrow> path \<Rightarrow> path \<Rightarrow> 'j filesystem \<times> (error + unit)" where
  "copy2 fs src dest =
     (let dst = (if fs dest = Some Dir then dest @ [path_name src] else dest)
      in if src = dst \<and> fs src \<noteq> None then (fs, Inl SameFileError)
         else (case fs src of
                 None \<Rightarrow> (fs, Inl FileNotFoundError)
               | Some Dir \<Rightarrow> (fs, Inl IsADirectoryError)
               | Some (File c) \<Rightarrow> write_file fs dst c))"

section \<open>The asset copier\<close>

text \<open>The loop of \<^verbatim>\<open>_copy_images\<close> (lines 79 to 87), with its \<open>copied\<close> set.\<close>

fun copy_images_loop ::
  "'j filesystem \<Rightarrow> 'j frame list \<Rightarrow> path \<Rightarrow> path \<Rightarrow> string \<Rightarrow> path set
     \<Rightarrow> 'j filesystem \<times> (error + unit)" where
  "copy_images_loop fs [] raw_dir subset_dir extension copied = (fs, Inr ())"
| "copy_images_loop fs (frame # rest) raw_dir subset_dir extension copied =
     (let rel_path = Path (remove_dot_slash (file_path frame))
      in case with_suffix rel_path extension of
           Inl e \<Rightarrow> (fs, Inl e)
         | Inr rel \<Rightarrow>
             (let src = joinpath raw_dir rel; dest = joinpath subset_dir rel
              in if dest \<in> copied
                 then copy_images_loop fs rest raw_dir subset_dir extension copied
                 else (case mkdir fs (butlast dest) of
                         (fs1, Inl e) \<Rightarrow> (fs1, Inl e)
                       | (fs1, Inr u) \<Rightarrow>
                           (case copy2 fs1 src dest of
                              (fs2, Inl e) \<Rightarrow> (fs2, Inl e)
                            | (fs2, Inr u') \<Rightarrow>
                                copy_images_loop fs2 rest raw_dir subset_dir extension
                                  (insert dest copied)))))"

definition copy_images ::
  "'j filesystem \<Rightarrow> 'j frame list \<Rightarrow> path \<Rightarrow> path \<Rightarrow> string \<Rightarrow> 'j filesystem \<times> (error + unit)" where
  "copy_images fs frames raw_dir subset_dir extension =
     copy_images_loop fs frames raw_dir subset_dir extension {}"

section \<open>The subset assembler\<close>

text \<open>
  The \<^verbatim>\<open>selection\<close> dictionary: a key that is missing or holds \<^verbatim>\<open>None\<close> is
  \<open>None\<close> (the key \<^verbatim>\<open>strategy\<close>, when present, holds a string). The dictionary
  returned by \<^verbatim>\<open>create_view_subset\<close> is the record \<open>summary\<close>.
\<close>

record selection =
  sel_indices :: "int list option"
  sel_names :: "string list option"
  sel_strategy :: "string option"
  sel_seed :: "int option"
  sel_view_count :: "int option"

record summary =
  out_subset_dir :: path
  out_view_count :: nat
  out_selected_views :: "string list"
  out_strategy :: string
  out_selection_indices :: "int list option"
  out_selection_names :: "string list option"
  out_files :: "(string \<times> nat) list"

text \<open>\<^verbatim>\<open>selection = selection or {}\<close> (line 110).\<close>

definition selection_or_empty :: "selection option \<Rightarrow> selection" where
  "selection_or_empty sel =
     (case sel of
        None \<Rightarrow> \<lparr>sel_indices = None, sel_names = None, sel_strategy = None, sel_seed = None,
                  sel_view_count = None\<rparr>
      | Some s \<Rightarrow> s)"

text \<open>
  \<^verbatim>\<open>view_count = view_count or selection.get("view_count")\<close> (line 115): \<^verbatim>\<open>None\<close>
  and \<^verbatim>\<open>0\<close> are false.
\<close>

definition effective_view_count :: "int option \<Rightarrow> selection \<Rightarrow> int option" where
  "effective_view_count view_count sel =
     (case view_count of
        None \<Rightarrow> sel_view_count sel
      | Some vc \<Rightarrow> if vc = 0 then sel_view_count sel else Some vc)"

text \<open>\<^verbatim>\<open>summary[key] = value\<close>: a key that is present keeps its place.\<close>

fun dict_set :: "(string \<times> nat) list \<Rightarrow> string \<Rightarrow> nat \<Rightarrow> (string \<times> nat) list" where
  "dict_set [] key v = [(key, v)]"
| "dict_set ((k, w) # kvs) key v = (if k = key then (k, v) # kvs else (k, w) # dict_set kvs key v)"

text \<open>Destroying and recreating the subset directory (lines 106 to 108).\<close>

definition reset_subset_dir :: "'j filesystem \<Rightarrow> path \<Rightarrow> 'j filesystem \<times> (error + unit)" where
  "reset_subset_dir fs subset_dir =
     (if path_exists fs subset_dir
      then (case rmtree fs subset_dir of
              (fs1, Inl e) \<Rightarrow> (fs1, Inl e)
            | (fs1, Inr u) \<Rightarrow> mkdir fs1 subset_dir)
      else mkdir fs subset_dir)"

text \<open>The manifests to process (lines 132 to 136).\<close>

definition transform_files :: "'j filesystem \<Rightarrow> path \<Rightarrow> path list" where
  "transform_files fs raw_data_dir =
     joinpath raw_data_dir (Path ''transforms_train.json'')
     # filter (path_exists fs)
         (map (\<lambda>sfx. joinpath raw_data_dir (Path (''transforms_'' @ sfx @ ''.json'')))
            [''val'', ''test''])"

text \<open>
  The loop over the manifests (lines 141 to 157): each one is loaded, its frames are kept
  or filtered, and it is written under its own name into the subset directory.
\<close>

fun write_manifests ::
  "'j filesystem \<Rightarrow> path list \<Rightarrow> path \<Rightarrow> bool \<Rightarrow> string set \<Rightarrow> (string \<times> nat) list
     \<Rightarrow> 'j frame list \<Rightarrow> 'j filesystem \<times> (error + (string \<times> nat) list \<times> 'j frame list)" where
  "write_manifests fs [] subset_dir full_test_set selected_set summary frames_to_copy =
     (fs, Inr (summary, frames_to_copy))"
| "write_manifests fs (tf_path # rest) subset_dir full_test_set selected_set summary frames_to_copy =
     (case load_json fs tf_path of
        Inl e \<Rightarrow> (fs, Inl e)
      | Inr data \<Rightarrow>
          (let is_train = (path_name tf_path = ''transforms_train.json'');
               use_full = (full_test_set \<and> \<not> is_train);
               frames = (if use_full then manifest_frames data
                         else filter (\<lambda>frame. normalize_frame_name (file_path frame) \<in> selected_set)
                                (manifest_frames data));
               target = joinpath subset_dir (Path (path_name tf_path))
           in case write_json fs target (data\<lparr>manifest_frames := frames\<rparr>) of
                (fs1, Inl e) \<Rightarrow> (fs1, Inl e)
              | (fs1, Inr u) \<Rightarrow>
                  write_manifests fs1 rest subset_dir full_test_set selected_set
                    (dict_set summary (path_name target) (length frames))
                    (frames_to_copy @ frames)))"

text \<open>
  \<^verbatim>\<open>create_view_subset\<close> up to the end of that loop (lines 103 to 157): the selected
  views, the per-manifest counts and the frames whose images are to be copied.
\<close>

definition assemble_manifests ::
  "sampler \<Rightarrow> nat \<Rightarrow> 'j filesystem \<Rightarrow> path \<Rightarrow> path \<Rightarrow> int option \<Rightarrow> selection option \<Rightarrow> bool
     \<Rightarrow> 'j filesystem \<times> (error + string list \<times> (string \<times> nat) list \<times> 'j frame list)" where
  "assemble_manifests draw os_entropy fs raw_data_dir subset_dir view_count sel full_test_set =
     (case reset_subset_dir fs subset_dir of
        (fs1, Inl e) \<Rightarrow> (fs1, Inl e)
      | (fs1, Inr u) \<Rightarrow>
          (let selection = selection_or_empty sel;
               indices = sel_indices selection;
               names = sel_names selection;
               strategy = (case sel_strategy selection of None \<Rightarrow> ''uniform'' | Some s \<Rightarrow> s);
               seed = sel_seed selection;
               view_count' = effective_view_count view_count selection;
               train_path = joinpath raw_data_dir (Path ''transforms_train.json'')
           in if \<not> path_exists fs1 train_path then (fs1, Inl FileNotFoundError)
              else (case load_json fs1 train_path of
                      Inl e \<Rightarrow> (fs1, Inl e)
                    | Inr train \<Rightarrow>
                        (case choose_views draw os_entropy (manifest_frames train) view_count'
                                indices names strategy seed of
                           Inl e \<Rightarrow> (fs1, Inl e)
                         | Inr selected_views \<Rightarrow>
                             (case write_manifests fs1 (transform_files fs1 raw_data_dir) subset_dir
                                     full_test_set (set selected_views) [] [] of
                                (fs2, Inl e) \<Rightarrow> (fs2, Inl e)
                              | (fs2, Inr (files, frames_to_copy)) \<Rightarrow>
                                  (fs2, Inr (selected_views, files, frames_to_copy)))))))"

definition create_view_subset ::
  "sampler \<Rightarrow> nat \<Rightarrow> 'j filesystem \<Rightarrow> path \<Rightarrow> path \<Rightarrow> int option \<Rightarrow> selection option \<Rightarrow> string
     \<Rightarrow> bool \<Rightarrow> 'j filesystem \<times> (error + summary)" where
  "create_view_subset draw os_entropy fs raw_data_dir subset_dir view_count sel extension full_test_set =
     (case assemble_manifests draw os_entropy fs raw_data_dir subset_dir view_count sel full_test_set of
        (fs2, Inl e) \<Rightarrow> (fs2, Inl e)
      | (fs2, Inr (selected_views, files, frames_to_copy)) \<Rightarrow>
          (case copy_images fs2 frames_to_copy raw_data_dir subset_dir extension of
             (fs3, Inl e) \<Rightarrow> (fs3, Inl e)
           | (fs3, Inr u) \<Rightarrow>
               (fs3, Inr \<lparr>out_subset_dir = subset_dir,
                          out_view_count = length selected_views,
                          out_selected_views = selected_views,
                          out_strategy =
                            (case sel_strategy (selection_or_empty sel) of
                               None \<Rightarrow> ''uniform'' | Some s \<Rightarrow> s),
                          out_selection_indices = sel_indices (selection_or_empty sel),
                          out_selection_names = sel_names (selection_or_empty sel),
                          out_files = files\<rparr>)))"

section \<open>An example dataset\<close>

text \<open>
  A raw dataset of three training and two test frames, a directory without manifests,
  and an earlier subset directory \<^verbatim>\<open>out\<close>; the concrete runs below start from it.
\<close>

definition demo_frame :: "string \<Rightarrow> unit frame" where
  "demo_frame fp = \<lparr>file_path = fp, payload = [(''transform_matrix'', ())]\<rparr>"

definition demo_sampler :: sampler where
  "demo_sampler rnd population k = take k population"

definition demo_fs :: "unit filesystem" where
  "demo_fs =
     [[] \<mapsto> Dir,
      [''raw''] \<mapsto> Dir,
      [''raw'', ''train''] \<mapsto> Dir,
      [''raw'', ''test''] \<mapsto> Dir,
      [''raw'', ''transforms_train.json''] \<mapsto>
        File (JsonDoc \<lparr>manifest_frames =
                         [demo_frame ''./train/r_0'', demo_frame ''./train/r_1'',
                          demo_frame ''./train/r_2''],
                       top_level = [(''camera_angle_x'', ())]\<rparr>),
      [''raw'', ''transforms_test.json''] \<mapsto>
        File (JsonDoc \<lparr>manifest_frames = [demo_frame ''./test/r_0'', demo_frame ''./test/r_1''],
                       top_level = [(''camera_angle_x'', ())]\<rparr>),
      [''raw'', ''train'', ''r_0.png''] \<mapsto> File (Binary [0]),
      [''raw'', ''train'', ''r_1.png''] \<mapsto> File (Binary [1]),
      [''raw'', ''train'', ''r_2.png''] \<mapsto> File (Binary [2]),
      [''raw'', ''test'', ''r_0.png''] \<mapsto> File (Binary [3]),
      [''raw'', ''test'', ''r_1.png''] \<mapsto> File (Binary [4]),
      [''empty''] \<mapsto> Dir,
      [''out''] \<mapsto> Dir,
      [''out'', ''old.txt''] \<mapsto> File (Binary [9])]"

section \<open>Properties of the Python library model\<close>

text \<open>
  \<^verbatim>\<open>list(dict.fromkeys(xs))\<close> keeps the first occurrence of every element, in the
  order of \<open>xs\<close>: \<open>remdups\<close> keeps the last occurrences, so it is applied to the
  reversed list.
\<close>

lemma remdups_snoc: "remdups (ys @ [x]) = filter (\<lambda>y. y \<noteq> x) (remdups ys) @ [x]"
  by (induction ys) auto

lemma first_occ_Cons:
  "rev (remdups (rev (x # xs))) = x # filter (\<lambda>y. y \<noteq> x) (rev (remdups (rev xs)))"
  by (simp add: remdups_snoc rev_filter)

lemma fromkeys_foldl:
  "foldl (\<lambda>keys x. if x \<in> set keys then keys else keys @ [x]) acc xs
     = acc @ filter (\<lambda>x. x \<notin> set acc) (rev (remdups (rev xs)))"
proof (induction xs arbitrary: acc)
  case Nil
  show ?case by simp
next
  case (Cons x xs)
  show ?case
  proof (cases "x \<in> set acc")
    case True
    then have "filter (\<lambda>y. y \<notin> set acc) (filter (\<lambda>y. y \<noteq> x) (rev (remdups (rev xs))))
        = filter (\<lambda>y. y \<notin> set acc) (rev (remdups (rev xs)))"
      by (auto intro: filter_cong)
    with True show ?thesis
      by (simp only: foldl_Cons if_True Cons.IH first_occ_Cons filter.simps) simp
  next
    case False
    have "filter (\<lambda>y. y \<notin> set (acc @ [x])) (rev (remdups (rev xs)))
        = filter (\<lambda>y. y \<notin> set acc) (filter (\<lambda>y. y \<noteq> x) (rev (remdups (rev xs))))"
      by (auto intro: filter_cong)
    with False show ?thesis
      by (simp only: foldl_Cons if_False Cons.IH first_occ_Cons filter.simps) simp
  qed
qed

lemma fromkeys_first_occurrences: "fromkeys xs = rev (remdups (rev xs))"
  by (simp add: fromkeys_def fromkeys_foldl)

lemma distinct_fromkeys: "distinct (fromkeys xs)"
  by (simp add: fromkeys_first_occurrences)

lemma select_indices_eq:
  "select_indices fn idxs selected
     = selected @ map (\<lambda>idx. fn ! nat idx) (filter (\<lambda>idx. 0 \<le> idx \<and> idx < int (length fn)) idxs)"
  by (induction idxs arbitrary: selected) auto

subsection \<open>Rounding to binary64\<close>

text \<open>
  The rounding is off by at most half a unit in the last place, so by at most
  \<open>x / 2 ^ 53\<close>; it never falls below an integer that the exact number reaches; and
  it leaves the integers below \<open>2 ^ 53\<close> as they are.
\<close>

lemma bit_length_pos: "0 < k \<Longrightarrow> bit_length k = Suc (bit_length (k div 2))"
  by simp

lemma bit_length_nonpos: "k \<le> 0 \<Longrightarrow> bit_length k = 0"
  by simp

declare bit_length.simps [simp del]

lemma bit_length_bounds:
  "0 < k \<Longrightarrow> 2 ^ (bit_length k - 1) \<le> k \<and> k < 2 ^ bit_length k"
proof (induction k rule: bit_length.induct)
  case (1 k)
  show ?case
  proof (cases "k div 2 \<le> 0")
    case True
    with "1.prems" have "k = 1" by linarith
    then show ?thesis by (simp add: bit_length_pos bit_length_nonpos)
  next
    case False
    then have pos: "0 < k div 2" by simp
    let ?b = "bit_length (k div 2)"
    from "1.IH" "1.prems" pos have IH: "2 ^ (?b - 1) \<le> k div 2" "k div 2 < 2 ^ ?b"
      by simp_all
    from pos have b: "?b = Suc (?b - 1)" by (simp add: bit_length_pos)
    have "(2::int) ^ ?b = 2 * 2 ^ (?b - 1)" by (subst b) simp
    with IH(1) have lo: "2 ^ ?b \<le> k" by linarith
    from IH(2) have "k < 2 * 2 ^ ?b" by linarith
    with lo "1.prems" show ?thesis by (simp add: bit_length_pos)
  qed
qed

lemma binade_bounds:
  assumes "1 \<le> x"
  shows "0 \<le> binade x" and "2 ^ nat (binade x) \<le> x" and "x < 2 * 2 ^ nat (binade x)"
proof -
  let ?f = "\<lfloor>x\<rfloor>"
  let ?b = "bit_length ?f"
  from assms have f: "0 < ?f" by simp
  note bb = bit_length_bounds[OF f]
  from f have b: "?b = Suc (?b - 1)" by (simp add: bit_length_pos)
  have e: "binade x = int (?b - 1)"
    using assms b by (simp add: binade_def)
  show "0 \<le> binade x" by (simp add: e)
  have "(of_int (2 ^ (?b - 1)) :: rat) \<le> of_int ?f"
    using bb by (simp only: of_int_le_iff)
  also have "\<dots> \<le> x" by simp
  finally show "2 ^ nat (binade x) \<le> x" by (simp add: e)
  have "?f + 1 \<le> 2 ^ ?b" using bb by simp
  then have "(of_int (?f + 1) :: rat) \<le> of_int (2 ^ ?b)" by (simp only: of_int_le_iff)
  moreover have "x < of_int (?f + 1)" by linarith
  ultimately have "x < 2 ^ ?b" by simp
  also have "(2::rat) ^ ?b = 2 * 2 ^ (?b - 1)" by (subst b) simp
  finally show "x < 2 * 2 ^ nat (binade x)" by (simp add: e)
qed

lemma pow2_pos: "0 < pow2 e"
  by (simp add: pow2_def)

lemma pow2_ulp: "0 \<le> e \<Longrightarrow> pow2 (e - 52) = 2 ^ nat e / 2 ^ 52"
proof (cases "52 \<le> e")
  case True
  assume "0 \<le> e"
  from True have "nat e = nat (e - 52) + 52" by simp
  then have "(2::rat) ^ nat e = 2 ^ nat (e - 52) * 2 ^ 52" by (simp only: power_add)
  with True show ?thesis by (simp add: pow2_def)
next
  case False
  assume e: "0 \<le> e"
  from False e have "52 = nat (52 - e) + nat e" by simp
  then have p: "(2::rat) ^ 52 = 2 ^ nat (52 - e) * 2 ^ nat e" by (simp only: power_add)
  have "pow2 (e - 52) = 1 / 2 ^ nat (52 - e)"
    using False by (simp add: pow2_def)
  also have "\<dots> = 2 ^ nat e / (2 ^ nat (52 - e) * 2 ^ nat e)"
    by simp
  also have "\<dots> = 2 ^ nat e / 2 ^ 52"
    by (simp only: p [symmetric])
  finally show ?thesis .
qed

lemma round_half_even_error: "\<bar>of_int (round_half_even m) - m\<bar> \<le> 1 / 2"
  unfolding round_half_even_def Let_def by (auto simp: abs_if) linarith+

lemma round_half_even_ge:
  assumes "of_int j \<le> m"
  shows "j \<le> round_half_even m"
proof -
  from assms have "j \<le> \<lfloor>m\<rfloor>" by (simp add: le_floor_iff)
  then show ?thesis by (simp add: round_half_even_def Let_def)
qed

lemma round_half_even_int: "round_half_even (of_int j) = j"
  by (simp add: round_half_even_def)

lemma binary64_ge_one:
  assumes "1 \<le> x"
  obtains U where "0 < U" and "binary64 x = of_int (round_half_even (x / U)) * U"
    and "U * 2 ^ 52 = 2 ^ nat (binade x)"
proof -
  define U where "U = pow2 (binade x - 52)"
  have pos: "0 < U" unfolding U_def by (rule pow2_pos)
  from assms have "x \<noteq> 0" "\<bar>x\<bar> = x" "sgn x = 1" by simp_all
  then have run: "binary64 x = of_int (round_half_even (x / U)) * U"
    by (simp add: binary64_def Let_def U_def)
  have "U = 2 ^ nat (binade x) / 2 ^ 52"
    unfolding U_def by (rule pow2_ulp [OF binade_bounds(1) [OF assms]])
  then have "U * 2 ^ 52 = 2 ^ nat (binade x)" by simp
  with pos run show ?thesis by (rule that)
qed

lemma binary64_nonneg:
  assumes "0 \<le> x"
  shows "0 \<le> binary64 x"
proof (cases "x = 0")
  case True
  then show ?thesis by (simp add: binary64_def)
next
  case False
  with assms have x: "0 < x" by simp
  define U where "U = pow2 (binade \<bar>x\<bar> - 52)"
  have pos: "0 < U" unfolding U_def by (rule pow2_pos)
  have "(of_int 0 :: rat) \<le> \<bar>x\<bar> / U"
    using pos by simp
  then have "0 \<le> round_half_even (\<bar>x\<bar> / U)" by (rule round_half_even_ge)
  then have "(0::rat) \<le> of_int (round_half_even (\<bar>x\<bar> / U)) * U"
    using pos by simp
  with x show ?thesis by (simp add: binary64_def Let_def U_def)
qed

lemma binary64_error:
  assumes "1 \<le> x"
  shows "\<bar>binary64 x - x\<bar> \<le> x / 2 ^ 53"
proof -
  from binary64_ge_one [OF assms] obtain U where U: "0 < U"
    and run: "binary64 x = of_int (round_half_even (x / U)) * U"
    and scale: "U * 2 ^ 52 = 2 ^ nat (binade x)"
    by blast
  define r :: rat where "r = of_int (round_half_even (x / U))"
  have "binary64 x - x = (r - x / U) * U"
    using U by (simp add: run r_def algebra_simps)
  then have "\<bar>binary64 x - x\<bar> = \<bar>r - x / U\<bar> * U"
    using U by (simp add: abs_mult)
  also have "\<dots> \<le> 1 / 2 * U"
    using round_half_even_error [of "x / U"] U unfolding r_def by (intro mult_right_mono) simp_all
  finally have half: "\<bar>binary64 x - x\<bar> \<le> U / 2" by simp
  from scale binade_bounds(2) [OF assms] have "U * 2 ^ 52 \<le> x" by simp
  then have "U / 2 \<le> x / 2 ^ 53" by simp
  with half show ?thesis by (rule order_trans)
qed

lemma binade_small:
  assumes "1 \<le> x" and "x < 2 ^ 53"
  shows "nat (binade x) \<le> 52"
proof -
  from binade_bounds(2) [OF assms(1)] assms(2) have "(2::rat) ^ nat (binade x) < 2 ^ 53"
    by (rule le_less_trans)
  then have "nat (binade x) < 53" by (rule power_less_imp_less_exp [rotated]) simp
  then show ?thesis by simp
qed

lemma binary64_scaled:
  assumes "1 \<le> x" and "x < 2 ^ 53"
  obtains d :: nat where "binary64 x = of_int (round_half_even (x * 2 ^ d)) / 2 ^ d"
proof -
  from binary64_ge_one [OF assms(1)] obtain U where U: "0 < U"
    and run: "binary64 x = of_int (round_half_even (x / U)) * U"
    and scale: "U * 2 ^ 52 = 2 ^ nat (binade x)"
    by blast
  define e where "e = nat (binade x)"
  define D :: rat where "D = 2 ^ (52 - e)"
  have D: "0 < D" by (simp add: D_def)
  from binade_small [OF assms] have "52 - e + e = 52" by (simp add: e_def)
  then have "(2::rat) ^ 52 = 2 ^ (52 - e + e)" by (rule arg_cong [symmetric])
  also have "\<dots> = D * 2 ^ e" unfolding D_def by (rule power_add)
  finally have "U * (D * 2 ^ e) = 2 ^ e" using scale by (simp only: e_def)
  then have "(U * D) * 2 ^ e = 1 * 2 ^ e" by (simp only: mult.assoc mult_1)
  then have "U * D = 1" by simp
  then have "U = 1 / D" using D by (simp add: field_simps)
  with run have "binary64 x = of_int (round_half_even (x * D)) / D" by simp
  then show ?thesis unfolding D_def by (rule that)
qed

lemma binary64_ge_int:
  assumes "of_int k \<le> x" and "1 \<le> k" and "x < 2 ^ 53"
  shows "of_int k \<le> binary64 x"
proof -
  from assms(1,2) have x: "1 \<le> x" by (meson of_int_1_le_iff order_trans)
  from binary64_scaled [OF x assms(3)] obtain d :: nat
    where run: "binary64 x = of_int (round_half_even (x * 2 ^ d)) / 2 ^ d"
    by blast
  have "of_int (k * 2 ^ d) = of_int k * (2::rat) ^ d" by simp
  also have "\<dots> \<le> x * 2 ^ d"
    using assms(1) by (intro mult_right_mono) simp_all
  finally have "k * 2 ^ d \<le> round_half_even (x * 2 ^ d)"
    by (rule round_half_even_ge)
  then have "(of_int (k * 2 ^ d) :: rat) \<le> of_int (round_half_even (x * 2 ^ d))"
    by (simp only: of_int_le_iff)
  then have "of_int k * (2::rat) ^ d \<le> of_int (round_half_even (x * 2 ^ d))"
    by simp
  then have "of_int k \<le> of_int (round_half_even (x * 2 ^ d)) / (2::rat) ^ d"
    by (simp add: pos_le_divide_eq)
  then show ?thesis by (simp only: run)
qed

lemma binary64_of_nat:
  assumes "i < 2 ^ 53"
  shows "binary64 (of_nat i) = of_nat i"
proof (cases "i = 0")
  case True
  then show ?thesis by (simp add: binary64_def)
next
  case False
  define x :: rat where "x = of_nat i"
  from False have x: "1 \<le> x" by (simp add: x_def)
  from assms have "x < of_nat (2 ^ 53)" unfolding x_def by (simp only: of_nat_less_iff)
  then have lt: "x < 2 ^ 53" by simp
  from binary64_scaled [OF x lt] obtain d :: nat
    where run: "binary64 x = of_int (round_half_even (x * 2 ^ d)) / 2 ^ d"
    by blast
  have "x * 2 ^ d = of_int (int i * 2 ^ d)" by (simp add: x_def)
  then have "round_half_even (x * 2 ^ d) = int i * 2 ^ d"
    by (simp only: round_half_even_int)
  then have "(of_int (round_half_even (x * 2 ^ d)) :: rat) = x * 2 ^ d"
    by (simp add: x_def)
  then have "binary64 x = x * 2 ^ d / 2 ^ d" by (simp only: run)
  then have "binary64 x = x" by simp
  then show ?thesis by (simp only: x_def)
qed

section \<open>Properties of the view selector\<close>

subsection \<open>The stride of the uniform branch\<close>

text \<open>
  The uniform branch runs with a count \<open>0 < vc < n\<close>, so its stride exceeds one by at
  least \<open>1 / n\<close>. For catalogs of fewer than \<open>2 ^ 26\<close> frames the rounding errors of the
  stride and of the products are too small to close that gap: the index computed for
  \<open>i + 1\<close> is larger than the one computed for \<open>i\<close>, and all of them lie below \<open>n\<close>.
\<close>

lemma stride_bounds:
  assumes "0 < vc" and "vc < int n" and "n < 2 ^ 26"
  shows "1 + 1 / 2 ^ 27 \<le> binary64 (of_nat n / of_int vc)"
    and "(of_int vc - 1) * binary64 (of_nat n / of_int vc) \<le> (of_nat n - 1) * (1 + 1 / 2 ^ 53)"
proof -
  define q :: rat where "q = of_nat n / of_int vc"
  define s where "s = binary64 q"
  have vcr: "(0::rat) < of_int vc" using assms(1) by simp
  from assms(3) have "(of_nat n :: rat) < of_nat (2 ^ 26)" by (simp only: of_nat_less_iff)
  then have nr: "(of_nat n :: rat) < 2 ^ 26" by simp
  from assms(2) have "vc + 1 \<le> int n" by simp
  then have "(of_int (vc + 1) :: rat) \<le> of_int (int n)" by (simp only: of_int_le_iff)
  then have n1: "(of_int vc :: rat) + 1 \<le> of_nat n" by simp
  with nr have vc26: "(of_int vc :: rat) < 2 ^ 26" by simp
  have q1: "1 + 1 / 2 ^ 26 \<le> q"
  proof -
    have "(1 + 1 / 2 ^ 26) * of_int vc \<le> (of_int vc :: rat) + 1"
      using vc26 by (simp add: algebra_simps)
    also note n1
    finally show ?thesis using vcr by (simp add: q_def pos_le_divide_eq)
  qed
  then have qge: "1 \<le> q" by simp
  have qn: "q \<le> of_nat n - 1 \<or> True" by simp
  note err = binary64_error [OF qge, folded s_def]
  from abs_le_D2 [OF err] have lo: "q - q / 2 ^ 53 \<le> s" by linarith
  from abs_le_D1 [OF err] have hi: "s \<le> q + q / 2 ^ 53" by linarith
  have "1 + 1 / 2 ^ 27 \<le> (1 + 1 / 2 ^ 26) * (1 - 1 / 2 ^ 53 :: rat)" by simp
  also have "\<dots> \<le> q * (1 - 1 / 2 ^ 53)"
    using q1 by (intro mult_right_mono) simp_all
  also have "\<dots> = q - q / 2 ^ 53" by (simp add: algebra_simps)
  also note lo
  finally show "1 + 1 / 2 ^ 27 \<le> binary64 (of_nat n / of_int vc)"
    by (simp only: s_def q_def)
  have vq: "(of_int vc - 1) * q = of_nat n - q"
    using vcr by (simp add: q_def field_simps)
  have "(of_int vc - 1) * s \<le> (of_int vc - 1) * (q + q / 2 ^ 53)"
    using hi assms(1) by (intro mult_left_mono) simp_all
  also have "\<dots> = ((of_int vc - 1) * q) * (1 + 1 / 2 ^ 53)"
    by (simp add: algebra_simps)
  also have "\<dots> = (of_nat n - q) * (1 + 1 / 2 ^ 53)"
    by (simp only: vq)
  also have "\<dots> \<le> (of_nat n - 1) * (1 + 1 / 2 ^ 53)"
    using qge by (intro mult_right_mono) simp_all
  finally show "(of_int vc - 1) * binary64 (of_nat n / of_int vc) \<le> (of_nat n - 1) * (1 + 1 / 2 ^ 53)"
    by (simp only: s_def q_def)
qed

lemma stride_product:
  assumes "0 < vc" and "vc < int n" and "n < 2 ^ 26" and "i < nat vc"
  defines "s \<equiv> binary64 (of_nat n / of_int vc)"
  defines "y \<equiv> binary64 (binary64 (of_nat i) * s)"
  shows "0 \<le> y" and "y < of_nat n" and "of_int \<lfloor>y\<rfloor> - 1 / 2 ^ 27 < of_nat i * s"
    and "of_nat i * s < of_nat n"
proof -
  define x where "x = of_nat i * s"
  note sb = stride_bounds [OF assms(1-3), folded s_def]
  from sb(1) have s1: "1 \<le> s" by simp
  from assms(3) have "(of_nat n :: rat) < of_nat (2 ^ 26)" by (simp only: of_nat_less_iff)
  then have nr: "(of_nat n :: rat) < 2 ^ 26" by simp
  from assms(2,4) have "i < n" by linarith
  with assms(3) have "i < 2 ^ 53" by simp
  then have y: "y = binary64 x"
    by (simp only: y_def x_def binary64_of_nat)
  have x0: "0 \<le> x" using s1 by (simp add: x_def)
  from assms(4) have "int i + 1 \<le> vc" by linarith
  then have "(of_int (int i + 1) :: rat) \<le> of_int vc" by (simp only: of_int_le_iff)
  then have ile: "(of_nat i :: rat) \<le> of_int vc - 1" by simp
  have "x \<le> (of_int vc - 1) * s"
    unfolding x_def using ile s1 by (intro mult_right_mono) simp_all
  also note sb(2)
  finally have xb: "x \<le> (of_nat n - 1) * (1 + 1 / 2 ^ 53)" .
  have n1: "(1::rat) \<le> of_nat n" using assms(1,2) by simp
  from xb nr n1 have xn: "x < of_nat n"
    by (simp add: algebra_simps)
  have err: "\<bar>y - x\<bar> \<le> x / 2 ^ 53"
  proof (cases "i = 0")
    case True
    then show ?thesis by (simp add: y x_def binary64_def)
  next
    case False
    then have "1 \<le> (of_nat i :: rat)" by simp
    with s1 have "1 * 1 \<le> of_nat i * s" by (intro mult_mono) simp_all
    then have "1 \<le> x" by (simp add: x_def)
    then show ?thesis unfolding y by (rule binary64_error)
  qed
  show "0 \<le> y" unfolding y using x0 by (rule binary64_nonneg)
  from abs_le_D1 [OF err] have "y \<le> x + x / 2 ^ 53" by linarith
  also have "\<dots> = x * (1 + 1 / 2 ^ 53)" by (simp add: algebra_simps)
  also have "\<dots> \<le> ((of_nat n - 1) * (1 + 1 / 2 ^ 53)) * (1 + 1 / 2 ^ 53)"
    using xb by (intro mult_right_mono) simp_all
  also have "\<dots> < of_nat n"
    using nr n1 by (simp add: algebra_simps)
  finally show "y < of_nat n" .
  from abs_le_D1 [OF err] have "y - x / 2 ^ 53 \<le> x" by linarith
  moreover have "of_int \<lfloor>y\<rfloor> \<le> y" by simp
  moreover from xn nr have "x / 2 ^ 53 < 1 / 2 ^ 27" by simp
  ultimately show "of_int \<lfloor>y\<rfloor> - 1 / 2 ^ 27 < of_nat i * s"
    unfolding x_def by linarith
  from xn show "of_nat i * s < of_nat n" by (simp only: x_def)
qed

lemma stride_index_range:
  assumes "0 < vc" and "vc < int n" and "n < 2 ^ 26" and "i < nat vc"
  shows "0 \<le> stride_index (binary64 (of_nat n / of_int vc)) i" and "stride_index (binary64 (of_nat n / of_int vc)) i \<le> int n - 1"
proof -
  note p = stride_product [OF assms]
  from p(1) have idx: "stride_index (binary64 (of_nat n / of_int vc)) i = \<lfloor>binary64 (binary64 (of_nat i) * binary64 (of_nat n / of_int vc))\<rfloor>"
    by (simp add: stride_index_def py_int_def)
  from p(1) show "0 \<le> stride_index (binary64 (of_nat n / of_int vc)) i" by (simp add: idx)
  from p(2) have "\<lfloor>binary64 (binary64 (of_nat i) * binary64 (of_nat n / of_int vc))\<rfloor> < int n"
    by (simp add: floor_less_iff)
  then show "stride_index (binary64 (of_nat n / of_int vc)) i \<le> int n - 1" by (simp add: idx)
qed

lemma stride_index_strict:
  assumes "0 < vc" and "vc < int n" and "n < 2 ^ 26" and "Suc i < nat vc"
  shows "stride_index (binary64 (of_nat n / of_int vc)) i < stride_index (binary64 (of_nat n / of_int vc)) (Suc i)"
proof -
  define s where "s = binary64 (of_nat n / of_int vc)"
  from assms(4) have i: "i < nat vc" by simp
  note p = stride_product [OF assms(1-3) i, folded s_def]
  note p' = stride_product [OF assms(1-4), folded s_def]
  note sb = stride_bounds(1) [OF assms(1-3), folded s_def]
  define k where "k = \<lfloor>binary64 (binary64 (of_nat i) * s)\<rfloor>"
  from p(1) have k0: "0 \<le> k" by (simp add: k_def)
  have idx: "stride_index (binary64 (of_nat n / of_int vc)) i = k"
    using p(1) by (simp add: stride_index_def py_int_def k_def s_def)
  have idx': "stride_index (binary64 (of_nat n / of_int vc)) (Suc i) = \<lfloor>binary64 (binary64 (of_nat (Suc i)) * s)\<rfloor>"
    using p'(1) by (simp add: stride_index_def py_int_def s_def)
  have "of_nat (Suc i) * s = of_nat i * s + s" by (simp add: algebra_simps)
  with p(3) sb have "of_int k + 1 < of_nat (Suc i) * s"
    unfolding k_def by linarith
  then have ge: "of_int (k + 1) \<le> of_nat (Suc i) * s" by simp
  from assms(3) have "(of_nat n :: rat) < of_nat (2 ^ 26)" by (simp only: of_nat_less_iff)
  then have nr: "(of_nat n :: rat) < 2 ^ 26" by simp
  with p'(4) have lt: "of_nat (Suc i) * s < 2 ^ 53" by simp
  from assms(2,4) have "Suc i < n" by linarith
  with assms(3) have "Suc i < 2 ^ 53" by simp
  then have conv: "binary64 (of_nat (Suc i)) = of_nat (Suc i)" by (rule binary64_of_nat)
  from k0 have "1 \<le> k + 1" by simp
  from binary64_ge_int [OF ge this lt]
  have "of_int (k + 1) \<le> binary64 (binary64 (of_nat (Suc i)) * s)" by (simp only: conv)
  then have "k + 1 \<le> \<lfloor>binary64 (binary64 (of_nat (Suc i)) * s)\<rfloor>" by (simp only: le_floor_iff)
  then show ?thesis by (simp add: idx idx')
qed

lemma stride_index_mono:
  assumes "0 < vc" and "vc < int n" and "n < 2 ^ 26" and "i < j" and "j < nat vc"
  shows "stride_index (binary64 (of_nat n / of_int vc)) i
           < stride_index (binary64 (of_nat n / of_int vc)) j"
  using assms(4,5)
proof (induction j)
  case 0
  then show ?case by simp
next
  case (Suc j)
  from Suc.prems(2) have step: "stride_index (binary64 (of_nat n / of_int vc)) j
      < stride_index (binary64 (of_nat n / of_int vc)) (Suc j)"
    by (rule stride_index_strict [OF assms(1-3)])
  show ?case
  proof (cases "i = j")
    case True
    with step show ?thesis by simp
  next
    case False
    with Suc.prems have "i < j" "j < nat vc" by simp_all
    from Suc.IH [OF this] step show ?thesis by simp
  qed
qed

lemma selected_indices_stride:
  assumes "0 < vc" and "vc < int n" and "n < 2 ^ 26"
  shows "selected_indices n vc = map (stride_index (binary64 (of_nat n / of_int vc))) [0..<nat vc]"
  unfolding selected_indices_def Let_def
  using stride_index_range(2) [OF assms] by (intro map_cong) (simp_all add: min_def)

lemma selected_indices_fresh:
  assumes "0 < vc" and "vc < int n" and "n < 2 ^ 26"
  shows "sorted_wrt (<) (selected_indices n vc)"
    and "\<forall>idx \<in> set (selected_indices n vc). 0 \<le> idx \<and> idx < int n"
proof -
  have "sorted_wrt (<) [0..<nat vc]" by simp
  then show "sorted_wrt (<) (selected_indices n vc)"
    unfolding selected_indices_stride [OF assms] sorted_wrt_map
    by (rule sorted_wrt_mono_rel [rotated]) (simp add: stride_index_mono [OF assms])
  show "\<forall>idx \<in> set (selected_indices n vc). 0 \<le> idx \<and> idx < int n"
    unfolding selected_indices_stride [OF assms]
    using stride_index_range [OF assms] by fastforce
qed

text \<open>Whatever the size of the catalog, the clamped indices lie in it.\<close>

lemma stride_index_nonneg:
  assumes "0 \<le> step"
  shows "0 \<le> stride_index step i"
proof -
  have "0 \<le> binary64 (of_nat i)" by (rule binary64_nonneg) simp
  with assms have "0 \<le> binary64 (of_nat i) * step" by simp
  then have "0 \<le> binary64 (binary64 (of_nat i) * step)" by (rule binary64_nonneg)
  then show ?thesis by (simp add: stride_index_def py_int_def)
qed

lemma selected_indices_range:
  assumes "0 < vc" and "0 < n"
  shows "\<forall>idx \<in> set (selected_indices n vc). 0 \<le> idx \<and> idx < int n"
proof -
  have "0 \<le> binary64 (of_nat n / of_int vc)"
    using assms(1) by (intro binary64_nonneg) simp
  from stride_index_nonneg [OF this] assms(2) show ?thesis
    by (auto simp: selected_indices_def Let_def min_def)
qed

lemma selected_indices_negative: "vc < 0 \<Longrightarrow> selected_indices n vc = []"
  by (simp add: selected_indices_def)

text \<open>
  The loop of the uniform branch never fails on indices of the catalog, and on distinct
  indices that it has not seen it takes no collision branch.
\<close>

lemma uniform_loop_total:
  assumes "\<forall>idx \<in> set idxs. 0 \<le> idx \<and> idx < int (length fn)"
  shows "\<exists>sel. uniform_loop fn idxs seen selected = Inr sel"
  using assms
proof (induction idxs arbitrary: seen selected)
  case Nil
  show ?case by simp
next
  case (Cons idx rest)
  define idx' where "idx' = (if idx \<in> seen then min (idx + 1) (int (length fn) - 1) else idx)"
  from Cons.prems have "0 \<le> idx'" "idx' < int (length fn)"
    by (auto simp: idx'_def min_def)
  then have get: "getitem fn idx' = Inr (fn ! nat idx')"
    by (simp add: getitem_def)
  from Cons.prems have "\<forall>i \<in> set rest. 0 \<le> i \<and> i < int (length fn)" by simp
  from Cons.IH [OF this, of "insert idx' seen" "selected @ [fn ! nat idx']"] get show ?case
    by (simp add: Let_def idx'_def)
qed

lemma uniform_loop_fresh:
  assumes "distinct idxs" "set idxs \<inter> seen = {}"
    and "\<forall>idx \<in> set idxs. 0 \<le> idx \<and> idx < int (length fn)"
  shows "uniform_loop fn idxs seen selected = Inr (selected @ map (\<lambda>idx. fn ! nat idx) idxs)
         \<and> \<not> collides fn idxs seen"
  using assms
proof (induction idxs arbitrary: seen selected)
  case Nil
  show ?case by simp
next
  case (Cons idx rest)
  from Cons.prems have fresh: "idx \<notin> seen" and range: "0 \<le> idx" "idx < int (length fn)"
    by auto
  from range have get: "getitem fn idx = Inr (fn ! nat idx)"
    by (simp add: getitem_def)
  from Cons.prems have "distinct rest" "set rest \<inter> insert idx seen = {}"
    "\<forall>i \<in> set rest. 0 \<le> i \<and> i < int (length fn)"
    by auto
  from Cons.IH[OF this, of "selected @ [fn ! nat idx]"] fresh get show ?case
    by simp
qed

lemma uniform_views_positive:
  assumes "0 < vc" and "vc < int (length fn)" and "length fn < 2 ^ 26"
  shows "uniform_views fn vc = Inr (map (\<lambda>idx. fn ! nat idx) (selected_indices (length fn) vc))"
    and "\<not> collides fn (selected_indices (length fn) vc) {}"
proof -
  have d: "distinct (selected_indices (length fn) vc)"
    using selected_indices_fresh(1) [OF assms] by (simp add: strict_sorted_iff)
  note loop = uniform_loop_fresh [OF d _ selected_indices_fresh(2) [OF assms], of "{}" "[]"]
  from loop show "\<not> collides fn (selected_indices (length fn) vc) {}"
    by simp
  from loop show "uniform_views fn vc = Inr (map (\<lambda>idx. fn ! nat idx) (selected_indices (length fn) vc))"
    using assms(1) by (simp add: uniform_views_def)
qed

lemma collision_bounded:
  assumes "length frames < 2 ^ 26"
  shows "\<not> collision_triggered frames view_count indices names strategy"
proof
  assume c: "collision_triggered frames view_count indices names strategy"
  let ?fn = "map (\<lambda>frame. normalize_frame_name (file_path frame)) frames"
  from c obtain vc where vc: "view_count = Some vc" "vc < int (length ?fn)" "vc \<noteq> 0"
    and col: "collides ?fn (selected_indices (length ?fn) vc) {}"
    by (auto simp: collision_triggered_def Let_def split: option.splits)
  from assms have len: "length ?fn < 2 ^ 26" by simp
  show False
  proof (cases "0 < vc")
    case True
    from uniform_views_positive(2) [OF True vc(2) len] col show False by simp
  next
    case False
    with vc(3) have "vc < 0" by simp
    with col show False by (simp add: selected_indices_negative)
  qed
qed

lemma uniform_branch_run:
  assumes "items names = []" and "items indices = []"
    and "0 < vc" and "vc < int (length frames)" and "strategy \<noteq> ''random''"
    and "length frames < 2 ^ 26"
  shows "\<not> collision_triggered frames (Some vc) indices names strategy
         \<and> sorted_wrt (<) (selected_indices (length frames) vc)
         \<and> (\<exists>sel. choose_views draw os_entropy frames (Some vc) indices names strategy seed = Inr sel
                \<and> int (length sel) = vc
                \<and> sel = map (\<lambda>idx. normalize_frame_name (file_path (frames ! nat idx)))
                          (selected_indices (length frames) vc))"
proof -
  let ?fn = "map (\<lambda>frame. normalize_frame_name (file_path frame)) frames"
  have len: "vc < int (length ?fn)" "length ?fn < 2 ^ 26" using assms(4,6) by simp_all
  have "choose_views draw os_entropy frames (Some vc) indices names strategy seed = uniform_views ?fn vc"
    using assms by (simp add: choose_views_def)
  also have "\<dots> = Inr (map (\<lambda>idx. ?fn ! nat idx) (selected_indices (length ?fn) vc))"
    by (rule uniform_views_positive(1) [OF assms(3) len])
  also have "map (\<lambda>idx. ?fn ! nat idx) (selected_indices (length ?fn) vc)
      = map (\<lambda>idx. normalize_frame_name (file_path (frames ! nat idx)))
                          (selected_indices (length frames) vc)"
    using selected_indices_fresh(2) [OF assms(3,4,6)] by (intro map_cong) auto
  finally have run: "choose_views draw os_entropy frames (Some vc) indices names strategy seed
      = Inr (map (\<lambda>idx. normalize_frame_name (file_path (frames ! nat idx)))
                          (selected_indices (length frames) vc))" .
  have "int (length (selected_indices (length frames) vc)) = vc"
    using assms(3) by (simp add: selected_indices_def Let_def)
  with run selected_indices_fresh(1) [OF assms(3,4,6)] show ?thesis
    by (simp add: collision_bounded [OF assms(6)])
qed

text \<open>
  With no count or a positive one the selector returns a selection, and from a catalog of
  fewer than \<open>2 ^ 26\<close> frames with distinct names the deterministic branches select
  distinct names.
\<close>

lemma choose_views_returns:
  assumes "view_count = None \<or> (\<exists>vc. view_count = Some vc \<and> 0 < vc)"
  shows "\<exists>sel. choose_views draw os_entropy frames view_count indices names strategy seed = Inr sel"
proof -
  let ?fn = "map (\<lambda>frame. normalize_frame_name (file_path frame)) frames"
  show ?thesis
  proof (cases "items names = [] \<and> items indices = [] \<and> (\<exists>vc. view_count = Some vc \<and> vc < int (length frames))")
    case False
    then show ?thesis
      by (auto simp: choose_views_def Let_def split: option.splits)
  next
    case True
    then obtain vc where vc: "view_count = Some vc" "vc < int (length frames)" by blast
    with assms have pos: "0 < vc" by auto
    show ?thesis
    proof (cases "strategy = ''random''")
      case True
      with vc pos \<open>items names = [] \<and> items indices = [] \<and> _\<close> show ?thesis
        by (simp add: choose_views_def sample_def)
    next
      case False
      from vc(2) pos have "0 < length ?fn" by auto
      from uniform_loop_total [OF selected_indices_range [OF pos this], of "{}" "[]"]
      obtain sel where "uniform_loop ?fn (selected_indices (length ?fn) vc) {} [] = Inr sel"
        by blast
      with vc pos False \<open>items names = [] \<and> items indices = [] \<and> _\<close> show ?thesis
        by (simp add: choose_views_def uniform_views_def)
    qed
  qed
qed

lemma choose_views_distinct:
  assumes "distinct (map (\<lambda>frame. normalize_frame_name (file_path frame)) frames)"
    and "strategy \<noteq> ''random''"
    and "choose_views draw os_entropy frames view_count indices names strategy seed = Inr sel"
    and "length frames < 2 ^ 26"
  shows "distinct sel"
proof -
  let ?fn = "map (\<lambda>frame. normalize_frame_name (file_path frame)) frames"
  consider (names) "items names \<noteq> []"
    | (indices) "items names = []" "items indices \<noteq> []"
    | (all) "items names = []" "items indices = []"
        "view_count = None \<or> (\<exists>vc. view_count = Some vc \<and> int (length frames) \<le> vc)"
    | (uniform) vc where "items names = []" "items indices = []" "view_count = Some vc" "vc < int (length frames)"
    by (cases view_count) force+
  then show ?thesis
  proof cases
    case names
    with assms(3) show ?thesis by (auto simp: choose_views_def distinct_fromkeys)
  next
    case indices
    with assms(3) show ?thesis by (auto simp: choose_views_def distinct_fromkeys)
  next
    case all
    with assms(1,3) show ?thesis by (auto simp: choose_views_def)
  next
    case uniform
    show ?thesis
    proof (cases "0 < vc")
      case True
      from uniform_branch_run [OF uniform(1,2) True uniform(4) assms(2,4), of draw os_entropy seed] assms(3) uniform(3)
      have sel: "sel = map (\<lambda>idx. normalize_frame_name (file_path (frames ! nat idx))) (selected_indices (length frames) vc)"
        by simp
      have d: "distinct (selected_indices (length frames) vc)"
        using selected_indices_fresh(1) [OF True uniform(4) assms(4)] by (simp add: strict_sorted_iff)
      have r: "\<forall>idx \<in> set (selected_indices (length frames) vc). 0 \<le> idx \<and> idx < int (length frames)"
        by (rule selected_indices_fresh(2) [OF True uniform(4) assms(4)])
      have "inj_on (\<lambda>idx. ?fn ! nat idx) (set (selected_indices (length frames) vc))"
      proof (rule inj_onI)
        fix a b
        assume a: "a \<in> set (selected_indices (length frames) vc)" and b: "b \<in> set (selected_indices (length frames) vc)"
          and eq: "?fn ! nat a = ?fn ! nat b"
        from a b r have "nat a < length ?fn" "nat b < length ?fn" "0 \<le> a" "0 \<le> b" by auto
        with eq assms(1) show "a = b"
          by (metis nth_eq_iff_index_eq int_nat_eq)
      qed
      with d have "distinct (map (\<lambda>idx. ?fn ! nat idx) (selected_indices (length frames) vc))"
        by (simp add: distinct_map)
      moreover have "map (\<lambda>idx. ?fn ! nat idx) (selected_indices (length frames) vc) = sel"
        unfolding sel using r by (intro map_cong) auto
      ultimately show ?thesis by simp
    next
      case False
      have "vc = 0 \<or> selected_indices (length ?fn) vc = []"
        using False selected_indices_negative [of vc "length ?fn"] by linarith
      with assms(2,3) uniform have "sel = []"
        by (auto simp: choose_views_def uniform_views_def Let_def split: if_splits)
      then show ?thesis by simp
    qed
  qed
qed

subsection \<open>Explicit names\<close>

text \<open>
  Claim C7. For a non-empty \<^verbatim>\<open>names\<close> list the selector returns the stems of the
  given names, without their directories and last extension, each once and in the order
  of its first occurrence; the result is the same for every catalog, every
  \<^verbatim>\<open>indices\<close>, strategy, seed and count.
\<close>

theorem choose_views_names:
  assumes "names \<noteq> []"
  shows "choose_views draw os_entropy frames view_count indices (Some names) strategy seed
           = Inr (rev (remdups (rev (map (\<lambda>raw. stem (Path raw)) names))))
         \<and> choose_views draw os_entropy frames view_count indices (Some names) strategy seed
           = choose_views draw' os_entropy' frames' view_count' indices' (Some names) strategy' seed'"
  using assms by (simp add: choose_views_def items_def fromkeys_first_occurrences)

text \<open>
  Witness for claim C7: \<^verbatim>\<open>names=["b","a","b"]\<close> yields \<^verbatim>\<open>["b","a"]\<close>, also when
  indices, a count and the random strategy are given, and so do the same names written
  with a directory and an extension.
\<close>

theorem choose_views_names_witness:
  "[''b'', ''a'', ''b''] \<noteq> []
   \<and> choose_views (\<lambda>rnd population k. take k population) 0
        [\<lparr>file_path = ''./train/r_0'', payload = [] :: (string \<times> unit) list\<rparr>]
        (Some 1) (Some [0]) (Some [''b'', ''a'', ''b'']) ''random'' None = Inr [''b'', ''a'']
   \<and> choose_views (\<lambda>rnd population k. take k population) 0
        [\<lparr>file_path = ''./train/r_0'', payload = [] :: (string \<times> unit) list\<rparr>]
        (Some 1) (Some [0]) (Some [''./views/b.png'', ''a.png'', ''b'']) ''random'' None = Inr [''b'', ''a'']"
proof -
  let ?frames = "[\<lparr>file_path = ''./train/r_0'', payload = [] :: (string \<times> unit) list\<rparr>]"
  have ne: "[''b'', ''a'', ''b''] \<noteq> []" "[''./views/b.png'', ''a.png'', ''b''] \<noteq> []"
    by simp_all
  have "choose_views (\<lambda>rnd population k. take k population) 0 ?frames
          (Some 1) (Some [0]) (Some [''b'', ''a'', ''b'']) ''random'' None
        = Inr (rev (remdups (rev (map (\<lambda>raw. stem (Path raw)) [''b'', ''a'', ''b'']))))"
    by (rule choose_views_names [OF ne(1), THEN conjunct1])
  also have "\<dots> = Inr [''b'', ''a'']"
    by code_simp
  finally have first: "choose_views (\<lambda>rnd population k. take k population) 0 ?frames
          (Some 1) (Some [0]) (Some [''b'', ''a'', ''b'']) ''random'' None = Inr [''b'', ''a'']" .
  have "choose_views (\<lambda>rnd population k. take k population) 0 ?frames
          (Some 1) (Some [0]) (Some [''./views/b.png'', ''a.png'', ''b'']) ''random'' None
        = Inr (rev (remdups (rev (map (\<lambda>raw. stem (Path raw)) [''./views/b.png'', ''a.png'', ''b'']))))"
    by (rule choose_views_names [OF ne(2), THEN conjunct1])
  also have "\<dots> = Inr [''b'', ''a'']"
    by code_simp
  finally show ?thesis
    using ne(1) first by blast
qed

subsection \<open>Explicit indices\<close>

text \<open>
  Claim C8. With no names and a non-empty \<^verbatim>\<open>indices\<close> list the selector maps every
  index \<open>0 \<le> idx < len(catalog)\<close> to the normalized name of the frame at that position,
  drops every other index (a negative index does not count from the end), and keeps
  each name once, in the order of its first occurrence.
\<close>

theorem choose_views_indices:
  assumes "items names = []" and "indices \<noteq> []"
  shows "choose_views draw os_entropy frames view_count (Some indices) names strategy seed
           = Inr (rev (remdups (rev
               (map (\<lambda>idx. normalize_frame_name (file_path (frames ! nat idx)))
                  (filter (\<lambda>idx. 0 \<le> idx \<and> idx < int (length frames)) indices)))))"
proof -
  let ?fn = "map (\<lambda>frame. normalize_frame_name (file_path frame)) frames"
  let ?valid = "filter (\<lambda>idx. 0 \<le> idx \<and> idx < int (length frames)) indices"
  have "select_indices ?fn indices [] = map (\<lambda>idx. ?fn ! nat idx) ?valid"
    by (simp add: select_indices_eq)
  also have "\<dots> = map (\<lambda>idx. normalize_frame_name (file_path (frames ! nat idx))) ?valid"
    by (rule map_cong) auto
  finally have sel: "select_indices ?fn indices []
      = map (\<lambda>idx. normalize_frame_name (file_path (frames ! nat idx))) ?valid" .
  have "choose_views draw os_entropy frames view_count (Some indices) names strategy seed
      = Inr (fromkeys (select_indices ?fn indices []))"
    using assms by (simp add: choose_views_def items_def)
  then show ?thesis
    by (simp only: sel fromkeys_first_occurrences)
qed

text \<open>
  Witness for claim C8: in a catalog of five frames, \<^verbatim>\<open>indices=[0,4,10,-1]\<close> selects
  the names at the positions 0 and 4, in that order.
\<close>

theorem choose_views_indices_witness:
  "items (None :: string list option) = [] \<and> [0, 4, 10, - 1] \<noteq> ([] :: int list)
   \<and> choose_views (\<lambda>rnd population k. take k population) 0
        [\<lparr>file_path = ''./train/r_0'', payload = [] :: (string \<times> unit) list\<rparr>,
         \<lparr>file_path = ''./train/r_1'', payload = []\<rparr>,
         \<lparr>file_path = ''./train/r_2'', payload = []\<rparr>,
         \<lparr>file_path = ''./train/r_3'', payload = []\<rparr>,
         \<lparr>file_path = ''./train/r_4'', payload = []\<rparr>]
        (Some 2) (Some [0, 4, 10, - 1]) None ''uniform'' None = Inr [''r_0'', ''r_4'']"
proof -
  have h1: "items (None :: string list option) = []" by (simp add: items_def)
  have h2: "[0, 4, 10, - 1] \<noteq> ([] :: int list)" by simp
  let ?frames = "[\<lparr>file_path = ''./train/r_0'', payload = [] :: (string \<times> unit) list\<rparr>,
         \<lparr>file_path = ''./train/r_1'', payload = []\<rparr>,
         \<lparr>file_path = ''./train/r_2'', payload = []\<rparr>,
         \<lparr>file_path = ''./train/r_3'', payload = []\<rparr>,
         \<lparr>file_path = ''./train/r_4'', payload = []\<rparr>]"
  have "choose_views (\<lambda>rnd population k. take k population) 0 ?frames
          (Some 2) (Some [0, 4, 10, - 1]) None ''uniform'' None
        = Inr (rev (remdups (rev
               (map (\<lambda>idx. normalize_frame_name (file_path (?frames ! nat idx)))
                  (filter (\<lambda>idx. 0 \<le> idx \<and> idx < int (length ?frames)) [0, 4, 10, - 1])))))"
    by (rule choose_views_indices [OF h1 h2])
  also have "\<dots> = Inr [''r_0'', ''r_4'']"
    by code_simp
  finally show ?thesis
    using h1 by simp
qed

subsection \<open>Determinism\<close>

text \<open>
  Claim C6. The only input of the selector that a caller does not fix is the entropy the
  operating system gives to an unseeded generator. With the uniform strategy, and with
  the random strategy and an integer seed, the selection does not depend on it: two
  calls with the same catalog and policy return the same list.
\<close>

theorem choose_views_deterministic:
  assumes "strategy = ''uniform'' \<or> (strategy = ''random'' \<and> seed = Some s)"
  shows "choose_views draw os_entropy frames view_count indices names strategy seed
           = choose_views draw os_entropy' frames view_count indices names strategy seed"
  using assms by (auto simp: choose_views_def Random_def Let_def split: option.split)

text \<open>
  Witness for claim C6: the random strategy with seed 7, under two different entropies.
\<close>

theorem choose_views_deterministic_witness:
  "(''random'' = ''uniform'' \<or> (''random'' = ''random'' \<and> Some 7 = Some (7 :: int)))
   \<and> choose_views (\<lambda>rnd population k. case rnd of SeededInt s \<Rightarrow> take k population | SeededOS n \<Rightarrow> take k (rev population)) 0
        [\<lparr>file_path = ''./train/r_0'', payload = [] :: (string \<times> unit) list\<rparr>,
         \<lparr>file_path = ''./train/r_1'', payload = []\<rparr>]
        (Some 1) None None ''random'' (Some 7)
     = choose_views (\<lambda>rnd population k. case rnd of SeededInt s \<Rightarrow> take k population | SeededOS n \<Rightarrow> take k (rev population)) 1
        [\<lparr>file_path = ''./train/r_0'', payload = [] :: (string \<times> unit) list\<rparr>,
         \<lparr>file_path = ''./train/r_1'', payload = []\<rparr>]
        (Some 1) None None ''random'' (Some 7)"
proof -
  have h: "''random'' = ''uniform'' \<or> (''random'' = ''random'' \<and> Some 7 = Some (7 :: int))"
    by simp
  show ?thesis
    using h choose_views_deterministic [OF h] by blast
qed

text \<open>Without a seed, a sampler that reads its entropy returns different samples.\<close>

lemma unseeded_sample_may_vary:
  "choose_views (\<lambda>rnd population k. case rnd of SeededInt s \<Rightarrow> take k population | SeededOS n \<Rightarrow> take k (rotate n population)) 0
        [\<lparr>file_path = ''./train/r_0'', payload = [] :: (string \<times> unit) list\<rparr>,
         \<lparr>file_path = ''./train/r_1'', payload = []\<rparr>]
        (Some 1) None None ''random'' None
   \<noteq> choose_views (\<lambda>rnd population k. case rnd of SeededInt s \<Rightarrow> take k population | SeededOS n \<Rightarrow> take k (rotate n population)) 1
        [\<lparr>file_path = ''./train/r_0'', payload = [] :: (string \<times> unit) list\<rparr>,
         \<lparr>file_path = ''./train/r_1'', payload = []\<rparr>]
        (Some 1) None None ''random'' None"
  by code_simp

subsection \<open>Counts that raise\<close>

text \<open>
  Claim C3 says that the selector raises no error for any integer count. On a catalog of
  two frames the count 0 with the uniform strategy raises \<^verbatim>\<open>ZeroDivisionError\<close>
  (the stride divides by the count), and the count -1 with the random strategy raises
  \<^verbatim>\<open>ValueError\<close> (the sampler refuses a negative sample size).
\<close>

theorem choose_views_raises:
  "choose_views draw os_entropy
     [\<lparr>file_path = ''./train/r_0'', payload = p0\<rparr>, \<lparr>file_path = ''./train/r_1'', payload = p1\<rparr>]
     (Some 0) None None ''uniform'' None = Inl ZeroDivisionError
   \<and> choose_views draw os_entropy
     [\<lparr>file_path = ''./train/r_0'', payload = p0\<rparr>, \<lparr>file_path = ''./train/r_1'', payload = p1\<rparr>]
     (Some (- 1)) None None ''random'' (Some 0) = Inl ValueError"
  by (simp add: choose_views_def items_def uniform_views_def sample_def)

subsection \<open>Duplicate names\<close>

text \<open>
  Claim C5 says that the selection is duplicate-free in every branch, also for a catalog
  with two frames of the same normalized name. The take-all branch returns the catalog's
  names as they are: two frames \<^verbatim>\<open>./cam0/r_0.png\<close> and \<^verbatim>\<open>./cam1/r_0.png\<close> give
  the name \<^verbatim>\<open>r_0\<close> twice.
\<close>

theorem choose_views_duplicates:
  "choose_views draw os_entropy
     [\<lparr>file_path = ''./cam0/r_0.png'', payload = p0\<rparr>, \<lparr>file_path = ''./cam1/r_0.png'', payload = p1\<rparr>]
     None None None ''uniform'' None = Inr [''r_0'', ''r_0'']"
proof -
  have "normalize_frame_name ''./cam0/r_0.png'' = ''r_0''" "normalize_frame_name ''./cam1/r_0.png'' = ''r_0''"
    by code_simp+
  then show ?thesis
    by (simp add: choose_views_def items_def)
qed

subsection \<open>The collision branch of the uniform strategy\<close>

text \<open>
  The stride is a binary64 number, and so are the products: for 30 frames and 22 views
  the index computed for \<open>i = 11\<close> is 14, where the exact quotient \<open>11 * 30 / 22\<close> is 15.
\<close>

lemma stride_index_rounding: "stride_index (binary64 (30 / 22)) 11 = 14"
  by code_simp

text \<open>
  Claim C4 says that for some catalog and count (a small catalog, a large count) the
  uniform branch takes its collision branch and returns fewer distinct names than
  requested. No call on a catalog of fewer than \<open>2 ^ 26\<close> frames does: the uniform
  branch is reached only with a count below the catalog size, and then the computed
  indices are strictly increasing (a positive count) or there are none (a negative one).
\<close>

theorem uniform_collision_unreachable:
  "\<not> (\<exists>(draw :: sampler) os_entropy (frames :: unit frame list) vc indices names seed sel.
        length frames < 2 ^ 26
        \<and> collision_triggered frames (Some vc) indices names ''uniform''
        \<and> choose_views draw os_entropy frames (Some vc) indices names ''uniform'' seed = Inr sel
        \<and> int (card (set sel)) < vc)"
  by (simp add: collision_bounded)

text \<open>
  Claim C4, amended. Whenever the uniform branch runs with a positive count
  (\<open>0 < view_count < len(catalog)\<close>, no names, no indices) on a catalog of fewer than
  \<open>2 ^ 26\<close> frames, its collision branch is not taken, the computed indices are strictly
  increasing, and the selector returns exactly \<open>view_count\<close> names: the normalized names
  at the computed indices.
\<close>

theorem choose_views_uniform:
  assumes "items names = []" and "items indices = []"
    and "0 < vc" and "vc < int (length frames)" and "strategy \<noteq> ''random''"
    and "length frames < 2 ^ 26"
  shows "\<not> collision_triggered frames (Some vc) indices names strategy
         \<and> sorted_wrt (<) (selected_indices (length frames) vc)
         \<and> (\<exists>sel. choose_views draw os_entropy frames (Some vc) indices names strategy seed = Inr sel
                \<and> int (length sel) = vc
                \<and> sel = map (\<lambda>idx. normalize_frame_name (file_path (frames ! nat idx)))
                          (selected_indices (length frames) vc))"
  by (rule uniform_branch_run [OF assms])

text \<open>
  Witness for claim C4, amended: ten frames \<^verbatim>\<open>r_0\<close> to \<^verbatim>\<open>r_9\<close> and the count 3
  select \<^verbatim>\<open>r_0\<close>, \<^verbatim>\<open>r_3\<close> and \<^verbatim>\<open>r_6\<close>.
\<close>

theorem choose_views_uniform_witness:
  "items (None :: string list option) = [] \<and> items (None :: int list option) = []
   \<and> (0 :: int) < 3 \<and> (3 :: int) < int (length (map (\<lambda>k. \<lparr>file_path = ''./train/r_'' @ [char_of (48 + k)], payload = [] :: (string \<times> unit) list\<rparr>) [0..<10]))
   \<and> ''uniform'' \<noteq> ''random''
   \<and> length (map (\<lambda>k. \<lparr>file_path = ''./train/r_'' @ [char_of (48 + k)], payload = [] :: (string \<times> unit) list\<rparr>) [0..<10]) < 2 ^ 26
   \<and> choose_views (\<lambda>rnd population k. take k population) 0
        (map (\<lambda>k. \<lparr>file_path = ''./train/r_'' @ [char_of (48 + k)], payload = [] :: (string \<times> unit) list\<rparr>) [0..<10])
        (Some 3) None None ''uniform'' None = Inr [''r_0'', ''r_3'', ''r_6'']"
proof -
  let ?frames = "map (\<lambda>k. \<lparr>file_path = ''./train/r_'' @ [char_of (48 + k)], payload = [] :: (string \<times> unit) list\<rparr>) [0..<10]"
  have h1: "items (None :: string list option) = []" and h2: "items (None :: int list option) = []"
    by (simp_all add: items_def)
  have h3: "(0 :: int) < 3" and h4: "(3 :: int) < int (length ?frames)" and h5: "''uniform'' \<noteq> ''random''"
    and h6: "length ?frames < 2 ^ 26"
    by simp_all
  from choose_views_uniform [OF h1 h2 h3 h4 h5 h6, of "\<lambda>rnd population k. take k population" 0 None]
  have "choose_views (\<lambda>rnd population k. take k population) 0 ?frames (Some 3) None None ''uniform'' None
      = Inr (map (\<lambda>idx. normalize_frame_name (file_path (?frames ! nat idx))) (selected_indices (length ?frames) 3))"
    by blast
  also have "\<dots> = Inr [''r_0'', ''r_3'', ''r_6'']"
    by code_simp
  finally show ?thesis
    using h1 h2 h4 h6 by simp
qed

section \<open>Properties of the file system operations\<close>

text \<open>
  The three manifest names are single path parts, so joining one to a directory appends
  it.
\<close>

lemma manifest_name_paths:
  "Path ''transforms_train.json'' = [''transforms_train.json'']"
  "Path ''transforms_val.json'' = [''transforms_val.json'']"
  "Path ''transforms_test.json'' = [''transforms_test.json'']"
  by code_simp+

lemma joinpath_manifest:
  assumes "n \<in> {''transforms_train.json'', ''transforms_val.json'', ''transforms_test.json''}"
  shows "joinpath d (Path n) = d @ [n]" and "path_name (d @ [n]) = n" and "Path n = [n]"
    and "joinpath d [n] = d @ [n]"
  using assms by (auto simp: manifest_name_paths joinpath_def path_name_def)



text \<open>
  Creating directories changes nothing that is there: it only puts a directory where
  there was nothing, on the way to its target.
\<close>

lemma make_dirs_effect:
  assumes "make_dirs fs ds = (fs', r)"
  shows "fs' p = fs p \<or> (fs p = None \<and> fs' p = Some Dir \<and> p \<in> set ds)"
  using assms
proof (induction ds arbitrary: fs)
  case Nil
  then show ?case by simp
next
  case (Cons d ds)
  show ?case
  proof (cases "fs d")
    case None
    with Cons.prems have "make_dirs (fs(d \<mapsto> Dir)) ds = (fs', r)" by simp
    from Cons.IH[OF this] None show ?thesis by (auto split: if_splits)
  next
    case (Some nd)
    show ?thesis
    proof (cases nd)
      case Dir
      with Some Cons.prems have "make_dirs fs ds = (fs', r)" by simp
      from Cons.IH[OF this] show ?thesis by auto
    next
      case (File c)
      with Some Cons.prems show ?thesis by simp
    qed
  qed
qed


lemma mkdir_effect:
  assumes "mkdir fs d = (fs', r)"
  shows "fs' p = fs p \<or> (fs p = None \<and> fs' p = Some Dir \<and> path_under p d)"
proof -
  from make_dirs_effect[OF assms[unfolded mkdir_def], of p]
  show ?thesis by (auto simp: path_under_def)
qed


lemma rmtree_effect:
  assumes "rmtree fs d = (fs', Inr u)"
  shows "fs' = (\<lambda>q. if path_under d q then None else fs q)" and "fs d = Some Dir"
  using assms by (auto simp: rmtree_def split: option.splits node.splits)

lemma load_json_Inr: "load_json fs p = Inr m \<longleftrightarrow> fs p = Some (File (JsonDoc m))"
  by (auto simp: load_json_def split: option.splits node.splits content.splits)


subsection \<open>Resetting the subset directory\<close>

text \<open>
  After the reset, every file is a file that was there before; what lay outside the
  subset directory is still there; what lay below an existing subset directory is gone;
  and the subset directory is an empty directory.
\<close>

lemma reset_file_origin:
  assumes "reset_subset_dir fs d = (fs1, r)" and "fs1 p = Some (File c)"
  shows "fs p = Some (File c)"
proof (cases "path_exists fs d")
  case False
  with assms(1) have "mkdir fs d = (fs1, r)" by (simp add: reset_subset_dir_def)
  from mkdir_effect[OF this, of p] assms(2) show ?thesis by auto
next
  case True
  obtain fs0 r0 where rm: "rmtree fs d = (fs0, r0)" by (cases "rmtree fs d")
  show ?thesis
  proof (cases r0)
    case (Inl e)
    with rm True assms(1) have "fs1 = fs0" by (simp add: reset_subset_dir_def)
    moreover from rm Inl have "fs0 = fs" by (auto simp: rmtree_def split: option.splits node.splits)
    ultimately show ?thesis using assms(2) by simp
  next
    case (Inr u)
    with rm True assms(1) have mk: "mkdir fs0 d = (fs1, r)" by (simp add: reset_subset_dir_def)
    from mkdir_effect[OF mk, of p] assms(2) have "fs0 p = Some (File c)" by auto
    with rmtree_effect(1)[OF rm[unfolded Inr]] show ?thesis by (auto split: if_splits)
  qed
qed





section \<open>Properties of the subset assembler\<close>

subsection \<open>The manifest loop\<close>



lemma assemble_manifests_Inr:
  assumes "assemble_manifests draw os_entropy fs raw sub view_count sel full = (fs', Inr (sv, files, ftc))"
  shows "\<exists>fs1 u train. reset_subset_dir fs sub = (fs1, Inr u)
           \<and> fs1 (raw @ [''transforms_train.json'']) = Some (File (JsonDoc train))
           \<and> choose_views draw os_entropy (manifest_frames train)
                (effective_view_count view_count (selection_or_empty sel))
                (sel_indices (selection_or_empty sel)) (sel_names (selection_or_empty sel))
                (case sel_strategy (selection_or_empty sel) of None \<Rightarrow> ''uniform'' | Some s \<Rightarrow> s)
                (sel_seed (selection_or_empty sel)) = Inr sv
           \<and> write_manifests fs1 (transform_files fs1 raw) sub full (set sv) [] [] = (fs', Inr (files, ftc))"
proof -
  let ?tp = "raw @ [''transforms_train.json'']"
  let ?cv = "\<lambda>train. choose_views draw os_entropy (manifest_frames train)
                (effective_view_count view_count (selection_or_empty sel))
                (sel_indices (selection_or_empty sel)) (sel_names (selection_or_empty sel))
                (case sel_strategy (selection_or_empty sel) of None \<Rightarrow> ''uniform'' | Some s \<Rightarrow> s)
                (sel_seed (selection_or_empty sel))"
  have tp: "joinpath raw (Path ''transforms_train.json'') = ?tp"
    by (simp add: joinpath_manifest)
  obtain fs1 r where reset: "reset_subset_dir fs sub = (fs1, r)"
    by (cases "reset_subset_dir fs sub")
  obtain u where r: "r = Inr u"
  proof (cases r)
    case (Inl e)
    with reset have "assemble_manifests draw os_entropy fs raw sub view_count sel full = (fs1, Inl e)"
      by (simp add: assemble_manifests_def)
    with assms show ?thesis by simp
  next
    case (Inr u)
    then show ?thesis by (rule that)
  qed
  have ex: "path_exists fs1 ?tp"
  proof (rule ccontr)
    assume "\<not> path_exists fs1 ?tp"
    with reset r have "assemble_manifests draw os_entropy fs raw sub view_count sel full
        = (fs1, Inl FileNotFoundError)"
      by (simp add: assemble_manifests_def tp Let_def)
    with assms show False by simp
  qed
  obtain train where train: "load_json fs1 ?tp = Inr train"
  proof (cases "load_json fs1 ?tp")
    case (Inl e)
    with reset r ex have "assemble_manifests draw os_entropy fs raw sub view_count sel full = (fs1, Inl e)"
      by (simp add: assemble_manifests_def tp Let_def)
    with assms show ?thesis by simp
  next
    case (Inr train)
    then show ?thesis by (rule that)
  qed
  obtain sv' where cv: "?cv train = Inr sv'"
  proof (cases "?cv train")
    case (Inl e)
    with reset r ex train have "assemble_manifests draw os_entropy fs raw sub view_count sel full = (fs1, Inl e)"
      by (simp add: assemble_manifests_def tp Let_def)
    with assms show ?thesis by simp
  next
    case (Inr sv')
    then show ?thesis by (rule that)
  qed
  obtain fs2 r2 where wm: "write_manifests fs1 (transform_files fs1 raw) sub full (set sv') [] [] = (fs2, r2)"
    by (cases "write_manifests fs1 (transform_files fs1 raw) sub full (set sv') [] []")
  have "fs2 = fs' \<and> r2 = Inr (files, ftc) \<and> sv' = sv"
  proof (cases r2)
    case (Inl e)
    with reset r ex train cv wm have "assemble_manifests draw os_entropy fs raw sub view_count sel full = (fs2, Inl e)"
      by (simp add: assemble_manifests_def tp Let_def)
    with assms show ?thesis by simp
  next
    case (Inr res)
    obtain files' ftc' where res: "res = (files', ftc')" by (cases res)
    with Inr reset r ex train cv wm
    have "assemble_manifests draw os_entropy fs raw sub view_count sel full = (fs2, Inr (sv', files', ftc'))"
      by (simp add: assemble_manifests_def tp Let_def)
    with assms Inr res show ?thesis by simp
  qed
  with reset r train cv wm show ?thesis
    by (auto simp: load_json_Inr)
qed


lemma create_view_subset_Inr:
  assumes "create_view_subset draw os_entropy fs raw sub view_count sel ext full = (fs', Inr s)"
  shows "\<exists>fs2 sv files ftc.
           assemble_manifests draw os_entropy fs raw sub view_count sel full = (fs2, Inr (sv, files, ftc))
           \<and> out_selected_views s = sv \<and> out_view_count s = length sv \<and> out_files s = files"
proof -
  obtain fs2 r where a: "assemble_manifests draw os_entropy fs raw sub view_count sel full = (fs2, r)"
    by (cases "assemble_manifests draw os_entropy fs raw sub view_count sel full")
  show ?thesis
  proof (cases r)
    case (Inl e)
    with a have "create_view_subset draw os_entropy fs raw sub view_count sel ext full = (fs2, Inl e)"
      by (simp add: create_view_subset_def)
    with assms show ?thesis by simp
  next
    case (Inr res)
    obtain sv files ftc where res: "res = (sv, files, ftc)" by (cases res)
    obtain fs3 r3 where c: "copy_images fs2 ftc raw sub ext = (fs3, r3)"
      by (cases "copy_images fs2 ftc raw sub ext")
    show ?thesis
    proof (cases r3)
      case (Inl e)
      with a Inr res c have "create_view_subset draw os_entropy fs raw sub view_count sel ext full = (fs3, Inl e)"
        by (simp add: create_view_subset_def)
      with assms show ?thesis by simp
    next
      case (Inr u)
      with a \<open>r = Inr res\<close> res c assms have
        "s = \<lparr>out_subset_dir = sub, out_view_count = length sv, out_selected_views = sv,
              out_strategy = (case sel_strategy (selection_or_empty sel) of None \<Rightarrow> ''uniform'' | Some s \<Rightarrow> s),
              out_selection_indices = sel_indices (selection_or_empty sel),
              out_selection_names = sel_names (selection_or_empty sel),
              out_files = files\<rparr>"
        by (simp add: create_view_subset_def)
      with a \<open>r = Inr res\<close> res show ?thesis by simp
    qed
  qed
qed


subsection \<open>The manifests after the asset copier\<close>













subsection \<open>The manifests at the end of a run\<close>






subsection \<open>Failures of the reset\<close>






subsection \<open>Held-out manifests\<close>



subsection \<open>Fields other than the frames\<close>




subsection \<open>A missing training manifest\<close>




subsection \<open>A count of zero\<close>

text \<open>
  Claim C10 says that every call with \<^verbatim>\<open>view_count=0\<close> and no count in the
  selection selects the full catalog. With explicit names the names branch of the
  selector answers first: in the example the effective count is \<^verbatim>\<open>None\<close>, the
  catalog has three names, and \<^verbatim>\<open>names=["r_1"]\<close> selects one view.
\<close>

theorem zero_view_count_with_names:
  "effective_view_count (Some 0)
     (selection_or_empty (Some \<lparr>sel_indices = None, sel_names = Some [''r_1''], sel_strategy = None,
                                 sel_seed = None, sel_view_count = None\<rparr>)) = None
   \<and> map_sum id (\<lambda>m. map (\<lambda>frame. normalize_frame_name (file_path frame)) (manifest_frames m))
        (load_json demo_fs (joinpath [''raw''] (Path ''transforms_train.json'')))
       = Inr [''r_0'', ''r_1'', ''r_2'']
   \<and> snd (create_view_subset demo_sampler 0 demo_fs [''raw''] [''out''] (Some 0)
          (Some \<lparr>sel_indices = None, sel_names = Some [''r_1''], sel_strategy = None,
                  sel_seed = None, sel_view_count = None\<rparr>) ''.png'' True)
       = Inr \<lparr>out_subset_dir = [''out''], out_view_count = 1, out_selected_views = [''r_1''],
               out_strategy = ''uniform'', out_selection_indices = None,
               out_selection_names = Some [''r_1''],
               out_files = [(''transforms_train.json'', 1), (''transforms_test.json'', 2)]\<rparr>"
  by code_simp

text \<open>
  Claim C10, amended. A count of 0 is replaced by the selection's count, as an absent
  count is: the effective count is the selection's count, or \<^verbatim>\<open>None\<close> when it has
  none, and the call is the call without a count. The views that a successful run reports
  are those that the selector returns for the frames of the training manifest with the
  selection's count. When the selection has no count and gives no names and no indices,
  the selector returns every frame name of the catalog, in catalog order.
\<close>

theorem zero_view_count_is_absent:
  "effective_view_count (Some 0) (selection_or_empty sel) = sel_view_count (selection_or_empty sel)
   \<and> create_view_subset draw os_entropy fs raw sub (Some 0) sel ext full
       = create_view_subset draw os_entropy fs raw sub None sel ext full
   \<and> (\<forall>fs' s. create_view_subset draw os_entropy fs raw sub (Some 0) sel ext full = (fs', Inr s) \<longrightarrow>
         (\<exists>train. load_json fs (joinpath raw (Path ''transforms_train.json'')) = Inr train
            \<and> choose_views draw os_entropy (manifest_frames train)
                 (sel_view_count (selection_or_empty sel))
                 (sel_indices (selection_or_empty sel)) (sel_names (selection_or_empty sel))
                 (case sel_strategy (selection_or_empty sel) of None \<Rightarrow> ''uniform'' | Some st \<Rightarrow> st)
                 (sel_seed (selection_or_empty sel)) = Inr (out_selected_views s)
            \<and> out_view_count s = length (out_selected_views s)))
   \<and> (sel_view_count (selection_or_empty sel) = None
        \<and> items (sel_names (selection_or_empty sel)) = []
        \<and> items (sel_indices (selection_or_empty sel)) = [] \<longrightarrow>
         choose_views draw os_entropy frames
            (effective_view_count (Some 0) (selection_or_empty sel))
            (sel_indices (selection_or_empty sel)) (sel_names (selection_or_empty sel))
            strategy seed
           = Inr (map (\<lambda>frame. normalize_frame_name (file_path frame)) frames))"
proof -
  have eff: "effective_view_count (Some 0) (selection_or_empty sel) = sel_view_count (selection_or_empty sel)"
    by (simp add: effective_view_count_def)
  have z: "effective_view_count (Some 0) = effective_view_count None"
    by (rule ext) (simp add: effective_view_count_def)
  have same: "assemble_manifests draw os_entropy fs raw sub (Some 0) sel full
      = assemble_manifests draw os_entropy fs raw sub None sel full"
    unfolding assemble_manifests_def z ..
  have same': "create_view_subset draw os_entropy fs raw sub (Some 0) sel ext full
             = create_view_subset draw os_entropy fs raw sub None sel ext full"
    by (simp only: create_view_subset_def same)
  have run: "\<exists>train. load_json fs (joinpath raw (Path ''transforms_train.json'')) = Inr train
            \<and> choose_views draw os_entropy (manifest_frames train)
                 (sel_view_count (selection_or_empty sel))
                 (sel_indices (selection_or_empty sel)) (sel_names (selection_or_empty sel))
                 (case sel_strategy (selection_or_empty sel) of None \<Rightarrow> ''uniform'' | Some st \<Rightarrow> st)
                 (sel_seed (selection_or_empty sel)) = Inr (out_selected_views s)
            \<and> out_view_count s = length (out_selected_views s)"
    if ok: "create_view_subset draw os_entropy fs raw sub (Some 0) sel ext full = (fs', Inr s)" for fs' s
  proof -
    from create_view_subset_Inr[OF ok] obtain fs2 files ftc where
      a: "assemble_manifests draw os_entropy fs raw sub (Some 0) sel full
            = (fs2, Inr (out_selected_views s, files, ftc))"
      and len: "out_view_count s = length (out_selected_views s)"
      by auto
    from assemble_manifests_Inr[OF a] obtain fs1 u train where
      reset: "reset_subset_dir fs sub = (fs1, Inr u)"
      and train: "fs1 (raw @ [''transforms_train.json'']) = Some (File (JsonDoc train))"
      and cv: "choose_views draw os_entropy (manifest_frames train)
                  (effective_view_count (Some 0) (selection_or_empty sel))
                  (sel_indices (selection_or_empty sel)) (sel_names (selection_or_empty sel))
                  (case sel_strategy (selection_or_empty sel) of None \<Rightarrow> ''uniform'' | Some s \<Rightarrow> s)
                  (sel_seed (selection_or_empty sel)) = Inr (out_selected_views s)"
      by blast
    from reset_file_origin[OF reset train]
    have "load_json fs (joinpath raw (Path ''transforms_train.json'')) = Inr train"
      by (simp add: joinpath_manifest load_json_Inr)
    with cv[unfolded eff] len show ?thesis by blast
  qed
  have all: "choose_views draw os_entropy frames
            (effective_view_count (Some 0) (selection_or_empty sel))
            (sel_indices (selection_or_empty sel)) (sel_names (selection_or_empty sel))
            strategy seed
           = Inr (map (\<lambda>frame. normalize_frame_name (file_path frame)) frames)"
    if "sel_view_count (selection_or_empty sel) = None
        \<and> items (sel_names (selection_or_empty sel)) = []
        \<and> items (sel_indices (selection_or_empty sel)) = []"
    using that by (simp add: eff choose_views_def)
  from eff same' run all show ?thesis by blast
qed

text \<open>
  Witness for claim C10, amended: the example dataset with \<^verbatim>\<open>view_count=0\<close>; with a
  selection whose count is 2 two views are selected, and with no selection all three.
\<close>

theorem zero_view_count_is_absent_witness:
  "effective_view_count (Some 0)
     (selection_or_empty (Some \<lparr>sel_indices = None, sel_names = None, sel_strategy = None,
                                 sel_seed = None, sel_view_count = Some 2\<rparr>)) = Some 2
   \<and> create_view_subset demo_sampler 0 demo_fs [''raw''] [''out''] None
          (Some \<lparr>sel_indices = None, sel_names = None, sel_strategy = None,
                  sel_seed = None, sel_view_count = Some 2\<rparr>) ''.png'' True
       = create_view_subset demo_sampler 0 demo_fs [''raw''] [''out''] (Some 0)
          (Some \<lparr>sel_indices = None, sel_names = None, sel_strategy = None,
                  sel_seed = None, sel_view_count = Some 2\<rparr>) ''.png'' True
   \<and> snd (create_view_subset demo_sampler 0 demo_fs [''raw''] [''out''] (Some 0)
          (Some \<lparr>sel_indices = None, sel_names = None, sel_strategy = None,
                  sel_seed = None, sel_view_count = Some 2\<rparr>) ''.png'' True)
       = Inr \<lparr>out_subset_dir = [''out''], out_view_count = 2,
               out_selected_views = [''r_0'', ''r_1''], out_strategy = ''uniform'',
               out_selection_indices = None, out_selection_names = None,
               out_files = [(''transforms_train.json'', 2), (''transforms_test.json'', 2)]\<rparr>
   \<and> effective_view_count (Some 0) (selection_or_empty None) = None
   \<and> items (sel_names (selection_or_empty None)) = []
   \<and> items (sel_indices (selection_or_empty None)) = []
   \<and> snd (create_view_subset demo_sampler 0 demo_fs [''raw''] [''out''] (Some 0) None ''.png'' True)
     = Inr \<lparr>out_subset_dir = [''out''], out_view_count = 3,
             out_selected_views = [''r_0'', ''r_1'', ''r_2''], out_strategy = ''uniform'',
             out_selection_indices = None, out_selection_names = None,
             out_files = [(''transforms_train.json'', 3), (''transforms_test.json'', 2)]\<rparr>
   \<and> choose_views demo_sampler 0
        [demo_frame ''./train/r_0'', demo_frame ''./train/r_1'', demo_frame ''./train/r_2'']
        (effective_view_count (Some 0) (selection_or_empty None))
        (sel_indices (selection_or_empty None)) (sel_names (selection_or_empty None)) ''uniform'' None
       = Inr [''r_0'', ''r_1'', ''r_2'']"
proof -
  let ?two = "Some \<lparr>sel_indices = None, sel_names = None, sel_strategy = None,
                  sel_seed = None, sel_view_count = Some 2\<rparr>"
  let ?frames = "[demo_frame ''./train/r_0'', demo_frame ''./train/r_1'', demo_frame ''./train/r_2'']"
  note two = zero_view_count_is_absent [where sel = ?two and draw = demo_sampler and os_entropy = 0
      and fs = demo_fs and raw = "[''raw'']" and sub = "[''out'']" and ext = "''.png''" and full = True]
  note none = zero_view_count_is_absent [where sel = None and draw = demo_sampler and os_entropy = 0
      and fs = demo_fs and raw = "[''raw'']" and sub = "[''out'']" and ext = "''.png''" and full = True
      and frames = ?frames and strategy = "''uniform''" and seed = None]
  have c2: "sel_view_count (selection_or_empty ?two) = Some 2" by (simp add: selection_or_empty_def)
  from two [THEN conjunct1] c2
  have e2: "effective_view_count (Some 0) (selection_or_empty ?two) = Some 2" by simp
  have same: "create_view_subset demo_sampler 0 demo_fs [''raw''] [''out''] None ?two ''.png'' True
       = create_view_subset demo_sampler 0 demo_fs [''raw''] [''out''] (Some 0) ?two ''.png'' True"
    by (rule two [THEN conjunct2, THEN conjunct1, symmetric])
  have run2: "snd (create_view_subset demo_sampler 0 demo_fs [''raw''] [''out''] None ?two ''.png'' True)
       = Inr \<lparr>out_subset_dir = [''out''], out_view_count = 2,
               out_selected_views = [''r_0'', ''r_1''], out_strategy = ''uniform'',
               out_selection_indices = None, out_selection_names = None,
               out_files = [(''transforms_train.json'', 2), (''transforms_test.json'', 2)]\<rparr>"
    by code_simp
  have h: "sel_view_count (selection_or_empty None) = None"
    "items (sel_names (selection_or_empty None)) = []"
    "items (sel_indices (selection_or_empty None)) = []"
    by (simp_all add: selection_or_empty_def items_def)
  from none [THEN conjunct1] h(1)
  have e0: "effective_view_count (Some 0) (selection_or_empty None) = None" by simp
  have same0: "create_view_subset demo_sampler 0 demo_fs [''raw''] [''out''] None None ''.png'' True
       = create_view_subset demo_sampler 0 demo_fs [''raw''] [''out''] (Some 0) None ''.png'' True"
    by (rule none [THEN conjunct2, THEN conjunct1, symmetric])
  have run0: "snd (create_view_subset demo_sampler 0 demo_fs [''raw''] [''out''] None None ''.png'' True)
     = Inr \<lparr>out_subset_dir = [''out''], out_view_count = 3,
             out_selected_views = [''r_0'', ''r_1'', ''r_2''], out_strategy = ''uniform'',
             out_selection_indices = None, out_selection_names = None,
             out_files = [(''transforms_train.json'', 3), (''transforms_test.json'', 2)]\<rparr>"
    by code_simp
  have names: "map (\<lambda>frame. normalize_frame_name (file_path frame)) ?frames = [''r_0'', ''r_1'', ''r_2'']"
    by code_simp
  from none [THEN conjunct2, THEN conjunct2, THEN conjunct2] h have "choose_views demo_sampler 0 ?frames
        (effective_view_count (Some 0) (selection_or_empty None))
        (sel_indices (selection_or_empty None)) (sel_names (selection_or_empty None)) ''uniform'' None
       = Inr (map (\<lambda>frame. normalize_frame_name (file_path frame)) ?frames)"
    by blast
  then have all: "choose_views demo_sampler 0 ?frames
        (effective_view_count (Some 0) (selection_or_empty None))
        (sel_indices (selection_or_empty None)) (sel_names (selection_or_empty None)) ''uniform'' None
       = Inr [''r_0'', ''r_1'', ''r_2'']"
    by (simp only: names)
  from e2 same run2 e0 h(2,3) same0 run0 all show ?thesis by (simp only: simp_thms)
qed

text \<open>
  When the selection holds the count 0 as well, as the experiment driver passes it, the
  effective count is 0 and the uniform branch divides by it.
\<close>

lemma zero_view_count_in_selection:
  "snd (create_view_subset demo_sampler 0 demo_fs [''raw''] [''out''] (Some 0)
          (Some \<lparr>sel_indices = None, sel_names = None, sel_strategy = Some ''uniform'',
                  sel_seed = None, sel_view_count = Some 0\<rparr>) ''.png'' True)
     = Inl ZeroDivisionError"
  by code_simp
end
